theory Spec2Isabelle
  imports Complex_Main "HOL-Library.AList" "HOL-Library.List_Lexorder"
    "HOL-Library.Product_Lexorder"
begin

section \<open>Grid, positions and topology\<close>

text \<open>
  A position is the JavaScript object \<open>{x, y}\<close>, written here as the pair \<open>(x, y)\<close>.
  A grid is an array of rows, read as \<open>grid[y][x]\<close>; the cell kinds are the numbers of
  the source (\<open>CELL_EMPTY = 0\<close>, \<open>CELL_WALL = 1\<close>, \<open>CELL_AGENT = 2\<close>,
  \<open>CELL_TARGET = 3\<close>).
\<close>

type_synonym pos = "int \<times> int"
type_synonym grid = "int list list"

definition CELL_EMPTY :: int where "CELL_EMPTY = 0"
definition CELL_WALL :: int where "CELL_WALL = 1"
definition CELL_AGENT :: int where "CELL_AGENT = 2"
definition CELL_TARGET :: int where "CELL_TARGET = 3"

datatype topology = VonNeumann | Moore

text \<open>\<open>grid.length\<close> and \<open>grid[0].length\<close>.\<close>

definition rows :: "grid \<Rightarrow> int" where
  "rows g = int (length g)"

definition cols :: "grid \<Rightarrow> int" where
  "cols g = (case g of [] \<Rightarrow> 0 | r # _ \<Rightarrow> int (length r))"

text \<open>
  \<open>grid[y][x]\<close> for a row index that exists; a column index beyond the row reads
  \<open>undefined\<close> in JavaScript, which is \<open>None\<close> here.
\<close>

definition cell :: "grid \<Rightarrow> int \<Rightarrow> int \<Rightarrow> int option" where
  "cell g x y =
     (if 0 \<le> y \<and> y < rows g \<and> 0 \<le> x \<and> x < int (length (g ! nat y))
      then Some (g ! nat y ! nat x) else None)"

text \<open>\<open>getDirections\<close> of topology.js.\<close>

definition getDirections :: "topology \<Rightarrow> pos list" where
  "getDirections topologyType =
     (if topologyType = Moore
      then [(0, -1), (1, -1), (1, 0), (1, 1), (0, 1), (-1, 1), (-1, 0), (-1, -1)]
      else [(0, -1), (1, 0), (0, 1), (-1, 0)])"

text \<open>\<open>getNeighbors\<close> of topology.js: the in-bounds neighbours, in direction order.\<close>

definition getNeighbors :: "int \<Rightarrow> int \<Rightarrow> topology \<Rightarrow> int \<Rightarrow> pos list" where
  "getNeighbors x y topologyType gridSize =
     filter (\<lambda>(nx, ny). nx \<ge> 0 \<and> nx < gridSize \<and> ny \<ge> 0 \<and> ny < gridSize)
       (map (\<lambda>(dx, dy). (x + dx, y + dy)) (getDirections topologyType))"

section \<open>Path reconstruction\<close>

text \<open>
  \<open>reconstructPath\<close> (the same in the BFS and A* classes): follow the parent map from the
  end position while an entry exists, putting each parent in front of the path. The
  source's loop has no bound, so the model is a partial function: \<open>None\<close> stands for a run
  that does not return.
\<close>

partial_function (option) reconstructLoop :: "(pos \<rightharpoonup> pos) \<Rightarrow> pos \<Rightarrow> pos list \<Rightarrow> pos list option" where
  "reconstructLoop parent current path =
     (case parent current of
        None \<Rightarrow> Some path
      | Some p \<Rightarrow> reconstructLoop parent p (p # path))"

declare reconstructLoop.simps [code]

definition reconstructPath :: "(pos \<rightharpoonup> pos) \<Rightarrow> pos \<Rightarrow> pos list option" where
  "reconstructPath parent current = reconstructLoop parent current [current]"

section \<open>Breadth-first search (bfs.js)\<close>

record BFS =
  bfs_grid :: grid
  bfs_directions :: "pos list"

text \<open>
  The constructor is declared as \<open>constructor(grid)\<close>; \<open>createPathfinder\<close> calls it as
  \<open>new BFS(gridData, currentTopology)\<close>, and JavaScript drops the extra argument.
\<close>

definition BFS_new :: "grid \<Rightarrow> topology \<Rightarrow> BFS" where
  "BFS_new g topologyType =
     \<lparr> bfs_grid = g, bfs_directions = [(0, -1), (1, 0), (0, 1), (-1, 0)] \<rparr>"

text \<open>The search state: the queue, the visited set and the parent map.\<close>

type_synonym bfs_state = "pos list \<times> pos set \<times> (pos \<rightharpoonup> pos)"

text \<open>The body of the loop over the directions, for one direction.\<close>

definition bfs_visit :: "grid \<Rightarrow> pos \<Rightarrow> pos \<Rightarrow> bfs_state \<Rightarrow> bfs_state" where
  "bfs_visit g current dir st =
     (case st of (queue, visited, parent) \<Rightarrow>
        let neighbor = (fst current + fst dir, snd current + snd dir) in
        if fst neighbor < 0 \<or> fst neighbor \<ge> cols g \<or> snd neighbor < 0 \<or> snd neighbor \<ge> rows g
        then st
        else if neighbor \<in> visited \<or> cell g (fst neighbor) (snd neighbor) = Some 1
        then st
        else (queue @ [neighbor], insert neighbor visited, parent(neighbor \<mapsto> current)))"

definition in_bounds :: "grid \<Rightarrow> pos set" where
  "in_bounds g = {0..<cols g} \<times> {0..<rows g}"

definition bfs_measure :: "grid \<Rightarrow> bfs_state \<Rightarrow> nat" where
  "bfs_measure g st =
     (case st of (queue, visited, parent) \<Rightarrow> 2 * card (in_bounds g - visited) + length queue)"

lemma finite_in_bounds: "finite (in_bounds g)"
  by (simp add: in_bounds_def)

lemma bfs_visit_measure: "bfs_measure g (bfs_visit g current dir st) \<le> bfs_measure g st"
proof -
  obtain queue visited parent where st: "st = (queue, visited, parent)"
    by (cases st) auto
  define n where "n = (fst current + fst dir, snd current + snd dir)"
  show ?thesis
  proof (cases "bfs_visit g current dir st = st")
    case True
    then show ?thesis by simp
  next
    case False
    then have inb: "n \<in> in_bounds g" and nv: "n \<notin> visited"
      and res: "bfs_visit g current dir st = (queue @ [n], insert n visited, parent(n \<mapsto> current))"
      by (auto simp: bfs_visit_def st n_def Let_def in_bounds_def split: if_splits)
    have "n \<in> in_bounds g - visited" using inb nv by simp
    moreover have "in_bounds g - insert n visited = (in_bounds g - visited) - {n}" by auto
    moreover have "finite (in_bounds g - visited)" using finite_in_bounds by simp
    ultimately have "card (in_bounds g - insert n visited) + 1 = card (in_bounds g - visited)"
      by (metis Suc_eq_plus1 card_Suc_Diff1)
    then show ?thesis using res by (simp add: st bfs_measure_def)
  qed
qed

lemma bfs_fold_measure:
  "bfs_measure g (fold (bfs_visit g current) dirs st) \<le> bfs_measure g st"
proof (induction dirs arbitrary: st)
  case Nil
  then show ?case by simp
next
  case (Cons d ds)
  have "bfs_measure g (fold (bfs_visit g current) ds (bfs_visit g current d st))
          \<le> bfs_measure g (bfs_visit g current d st)"
    by (rule Cons.IH)
  also have "\<dots> \<le> bfs_measure g st" by (rule bfs_visit_measure)
  finally show ?case by simp
qed

text \<open>
  The \<open>while (queue.length > 0)\<close> loop. Each round takes the head of the queue; a round
  that reaches the end position returns the reconstructed path, an empty queue returns
  the empty path. The end position is \<open>None\<close> when the caller passes the \<open>null\<close>
  coordinates of an agent without target: no cell equals it.
\<close>

function bfs_loop :: "grid \<Rightarrow> pos list \<Rightarrow> pos option \<Rightarrow> bfs_state \<Rightarrow> pos list option" where
  "bfs_loop g dirs goal st =
     (case st of (queue, visited, parent) \<Rightarrow>
        (case queue of
           [] \<Rightarrow> Some []
         | current # rest \<Rightarrow>
             if Some current = goal then reconstructPath parent current
             else bfs_loop g dirs goal (fold (bfs_visit g current) dirs (rest, visited, parent))))"
  by pat_completeness auto
termination
proof (relation "measure (\<lambda>(g, dirs, goal, st). bfs_measure g st)", goal_cases)
  case 1
  then show ?case by simp
next
  case (2 g dirs goal st queue rest visited parent current tl)
  have "bfs_measure g (fold (bfs_visit g current) dirs (tl, visited, parent))
          \<le> bfs_measure g (tl, visited, parent)"
    by (rule bfs_fold_measure)
  also have "\<dots> < bfs_measure g (current # tl, visited, parent)"
    by (simp add: bfs_measure_def)
  finally show ?case using 2 by simp
qed

declare bfs_loop.simps [simp del]

text \<open>
  \<open>BFS.findPath\<close>. Reading \<open>this.grid[0].length\<close> of an empty grid throws; that run
  returns no value, which is \<open>None\<close>.
\<close>

definition BFS_findPath :: "BFS \<Rightarrow> pos \<Rightarrow> pos \<Rightarrow> pos list option" where
  "BFS_findPath b start end =
     (if bfs_grid b = [] then None
      else bfs_loop (bfs_grid b) (bfs_directions b) (Some end) ([start], {start}, Map.empty))"

definition BFS_findPath_null :: "BFS \<Rightarrow> pos \<Rightarrow> pos list option" where
  "BFS_findPath_null b start =
     (if bfs_grid b = [] then None
      else bfs_loop (bfs_grid b) (bfs_directions b) None ([start], {start}, Map.empty))"


section \<open>A* search (the AStar class with topology support)\<close>

text \<open>
  Numbers are JavaScript doubles in the source. The scores of A* are modelled as exact
  rationals, with \<open>None\<close> standing for \<open>Infinity\<close>; the diagonal step cost is the
  literal \<open>1.414\<close> of the source.
\<close>

type_synonym score = "rat option"

text \<open>\<open>a >= b\<close> on scores, and the comparator \<open>a.f - b.f <= 0\<close> of the sort.\<close>

fun score_ge :: "score \<Rightarrow> score \<Rightarrow> bool" where
  "score_ge None _ = True"
| "score_ge (Some a) None = False"
| "score_ge (Some a) (Some b) = (a \<ge> b)"

definition score_le :: "score \<Rightarrow> score \<Rightarrow> bool" where
  "score_le a b = score_ge b a"

definition score_add :: "score \<Rightarrow> rat \<Rightarrow> score" where
  "score_add a c = (case a of None \<Rightarrow> None | Some v \<Rightarrow> Some (v + c))"

record AStar =
  as_grid :: grid
  as_topologyType :: topology
  as_directions :: "pos list"

text \<open>\<open>constructor(grid, topologyType = TOPOLOGY_VON_NEUMANN)\<close>.\<close>

definition AStar_new :: "grid \<Rightarrow> topology \<Rightarrow> AStar" where
  "AStar_new g topologyType =
     \<lparr> as_grid = g, as_topologyType = topologyType, as_directions = getDirections topologyType \<rparr>"

definition AStar_new_default :: "grid \<Rightarrow> AStar" where
  "AStar_new_default g = AStar_new g VonNeumann"

text \<open>\<open>heuristic\<close>: Chebyshev distance for Moore, Manhattan distance otherwise.\<close>

definition heuristic :: "topology \<Rightarrow> pos \<Rightarrow> pos \<Rightarrow> int" where
  "heuristic topologyType a b =
     (if topologyType = Moore
      then max \<bar>fst a - fst b\<bar> \<bar>snd a - snd b\<bar>
      else \<bar>fst a - fst b\<bar> + \<bar>snd a - snd b\<bar>)"

definition moveCost :: "pos \<Rightarrow> rat" where
  "moveCost dir = (if \<bar>fst dir\<bar> + \<bar>snd dir\<bar> = 2 then 1414 / 1000 else 1)"

text \<open>
  The open set is an array of \<open>{pos, f}\<close> entries. The sort is the stable sort of
  \<open>Array.prototype.sort\<close> with the comparator \<open>a.f - b.f\<close>.
\<close>

type_synonym open_set = "(pos \<times> score) list"

fun insort_f :: "pos \<times> score \<Rightarrow> open_set \<Rightarrow> open_set" where
  "insort_f x [] = [x]"
| "insort_f x (y # ys) = (if score_le (snd x) (snd y) then x # y # ys else y # insort_f x ys)"

definition sort_f :: "open_set \<Rightarrow> open_set" where
  "sort_f xs = foldr insort_f xs []"

text \<open>The loop that writes the new \<open>f\<close> into the first entry of the neighbour.\<close>

fun update_f :: "pos \<Rightarrow> score \<Rightarrow> open_set \<Rightarrow> open_set" where
  "update_f n f [] = []"
| "update_f n f (e # es) = (if fst e = n then (fst e, f) # es else e # update_f n f es)"

text \<open>
  The search state: open set, closed set, \<open>cameFrom\<close> and \<open>gScore\<close>. The \<open>fScore\<close> table
  of the source is written and read back in the same statement pair only, so the model
  passes the value directly.
\<close>

type_synonym astar_state = "open_set \<times> pos set \<times> (pos \<rightharpoonup> pos) \<times> (pos \<Rightarrow> score)"

text \<open>
  The end position of a search is \<open>None\<close> for the \<open>null\<close> coordinates of an agent without
  target; in the heuristic a \<open>null\<close> counts as \<open>0\<close>.
\<close>

definition goal_cell :: "pos option \<Rightarrow> pos" where
  "goal_cell goal = (case goal of None \<Rightarrow> (0, 0) | Some e \<Rightarrow> e)"

definition astar_visit :: "AStar \<Rightarrow> pos option \<Rightarrow> pos \<Rightarrow> pos \<Rightarrow> astar_state \<Rightarrow> astar_state" where
  "astar_visit a end current dir st =
     (case st of (openSet, closedSet, cameFrom, gScore) \<Rightarrow>
        let neighbor = (fst current + fst dir, snd current + snd dir) in
        if fst neighbor < 0 \<or> fst neighbor \<ge> cols (as_grid a) \<or>
           snd neighbor < 0 \<or> snd neighbor \<ge> rows (as_grid a)
        then st
        else if neighbor \<in> closedSet \<or> cell (as_grid a) (fst neighbor) (snd neighbor) = Some 1
        then st
        else
          let tentativeGScore = score_add (gScore current) (moveCost dir);
              neighborInOpenSet = (neighbor \<in> fst ` set openSet)
          in if neighborInOpenSet \<and> score_ge tentativeGScore (gScore neighbor) then st
             else
               let openSet1 = (if neighborInOpenSet then openSet else openSet @ [(neighbor, None)]);
                   f = score_add tentativeGScore
                         (of_int (heuristic (as_topologyType a) neighbor (goal_cell end)))
               in (update_f neighbor f openSet1, closedSet,
                   cameFrom(neighbor \<mapsto> current), gScore(neighbor := tentativeGScore)))"

definition astar_measure :: "grid \<Rightarrow> astar_state \<Rightarrow> nat" where
  "astar_measure g st =
     (case st of (openSet, closedSet, cameFrom, gScore) \<Rightarrow>
        2 * card (in_bounds g - (closedSet \<union> fst ` set openSet)) + length openSet)"

lemma fst_set_update_f: "fst ` set (update_f n f es) = fst ` set es"
  by (induction es) auto

lemma length_update_f: "length (update_f n f es) = length es"
  by (induction es) auto

lemma set_insort_f: "set (insort_f x ys) = insert x (set ys)"
  by (induction ys) auto

lemma length_insort_f: "length (insort_f x ys) = Suc (length ys)"
  by (induction ys) auto

lemma set_sort_f: "set (sort_f xs) = set xs"
  by (induction xs) (auto simp: sort_f_def set_insort_f)

lemma length_sort_f: "length (sort_f xs) = length xs"
  by (induction xs) (auto simp: sort_f_def length_insort_f)

lemma astar_visit_measure:
  "astar_measure (as_grid a) (astar_visit a end current dir st) \<le> astar_measure (as_grid a) st"
proof -
  obtain openSet closedSet cameFrom gScore where st: "st = (openSet, closedSet, cameFrom, gScore)"
    by (cases st) auto
  define n where "n = (fst current + fst dir, snd current + snd dir)"
  define seen where "seen = closedSet \<union> fst ` set openSet"
  show ?thesis
  proof (cases "length (fst (astar_visit a end current dir st)) = length openSet")
    case True
    have "fst ` set (fst (astar_visit a end current dir st)) \<supseteq> fst ` set openSet"
      by (auto simp: astar_visit_def st Let_def fst_set_update_f)
    moreover have "fst (snd (astar_visit a end current dir st)) = closedSet"
      by (auto simp: astar_visit_def st Let_def)
    ultimately have "in_bounds (as_grid a) -
        (fst (snd (astar_visit a end current dir st)) \<union> fst ` set (fst (astar_visit a end current dir st)))
        \<subseteq> in_bounds (as_grid a) - seen"
      by (auto simp: seen_def)
    then have "card (in_bounds (as_grid a) -
        (fst (snd (astar_visit a end current dir st)) \<union> fst ` set (fst (astar_visit a end current dir st))))
        \<le> card (in_bounds (as_grid a) - seen)"
      by (intro card_mono) (auto simp: finite_in_bounds)
    then show ?thesis using True
      by (cases "astar_visit a end current dir st") (auto simp: astar_measure_def st seen_def)
  next
    case False
    then have inb: "n \<in> in_bounds (as_grid a)" and ns: "n \<notin> seen"
      and o: "fst ` set (fst (astar_visit a end current dir st)) = insert n (fst ` set openSet)"
      and l: "length (fst (astar_visit a end current dir st)) = Suc (length openSet)"
      and c: "fst (snd (astar_visit a end current dir st)) = closedSet"
      by (auto simp: astar_visit_def st n_def seen_def Let_def in_bounds_def fst_set_update_f
            length_update_f split: if_splits)
    have "n \<in> in_bounds (as_grid a) - seen" using inb ns by simp
    moreover have "in_bounds (as_grid a) - (closedSet \<union> insert n (fst ` set openSet))
        = (in_bounds (as_grid a) - seen) - {n}"
      by (auto simp: seen_def)
    moreover have "finite (in_bounds (as_grid a) - seen)" using finite_in_bounds by simp
    ultimately have "card (in_bounds (as_grid a) - (closedSet \<union> insert n (fst ` set openSet))) + 1
        = card (in_bounds (as_grid a) - seen)"
      by (metis Suc_eq_plus1 card_Suc_Diff1)
    then show ?thesis using o l c
      by (cases "astar_visit a end current dir st") (auto simp: astar_measure_def st seen_def)
  qed
qed

lemma astar_fold_measure:
  "astar_measure (as_grid a) (fold (astar_visit a end current) dirs st) \<le> astar_measure (as_grid a) st"
proof (induction dirs arbitrary: st)
  case Nil
  then show ?case by simp
next
  case (Cons d ds)
  have "astar_measure (as_grid a) (fold (astar_visit a end current) ds (astar_visit a end current d st))
          \<le> astar_measure (as_grid a) (astar_visit a end current d st)"
    by (rule Cons.IH)
  also have "\<dots> \<le> astar_measure (as_grid a) st" by (rule astar_visit_measure)
  finally show ?case by simp
qed

text \<open>
  The \<open>while (openSet.length > 0)\<close> loop: sort, take the first entry, return the
  reconstructed path when it is the end position, otherwise close it and visit the
  neighbours.
\<close>

function astar_loop :: "AStar \<Rightarrow> pos option \<Rightarrow> astar_state \<Rightarrow> pos list option" where
  "astar_loop a end st =
     (case st of (openSet, closedSet, cameFrom, gScore) \<Rightarrow>
        (case sort_f openSet of
           [] \<Rightarrow> Some []
         | e # rest \<Rightarrow>
             let current = fst e in
             if Some current = end then reconstructPath cameFrom current
             else astar_loop a end
                    (fold (astar_visit a end current) (as_directions a)
                       (rest, insert current closedSet, cameFrom, gScore))))"
  by pat_completeness auto
termination
proof (relation "measure (\<lambda>(a, end, st). astar_measure (as_grid a) st)", goal_cases)
  case 1
  then show ?case by simp
next
  case (2 a "end" st openSet rest closedSet rest2 cameFrom gScore e es current)
  have s: "set (e # es) = set openSet" and l: "length (e # es) = length openSet"
    using 2 set_sort_f[of openSet] length_sort_f[of openSet] by auto
  have "astar_measure (as_grid a)
          (fold (astar_visit a end current) (as_directions a) (es, insert current closedSet, cameFrom, gScore))
        \<le> astar_measure (as_grid a) (es, insert current closedSet, cameFrom, gScore)"
    by (rule astar_fold_measure)
  also have "\<dots> < astar_measure (as_grid a) (openSet, closedSet, cameFrom, gScore)"
  proof -
    have "fst ` set openSet = insert current (fst ` set es)"
      using s 2 by (metis image_insert list.simps(15))
    then have "in_bounds (as_grid a) - (insert current closedSet \<union> fst ` set es)
        = in_bounds (as_grid a) - (closedSet \<union> fst ` set openSet)"
      by auto
    moreover have "length es < length openSet" using l by auto
    ultimately show ?thesis by (simp add: astar_measure_def)
  qed
  finally show ?case using 2 by simp
qed

declare astar_loop.simps [simp del]

text \<open>
  \<open>AStar.findPath\<close>. The score tables start at \<open>Infinity\<close> for every cell and at \<open>0\<close>
  for the start. Reading \<open>this.grid[0].length\<close> of an empty grid throws, which is \<open>None\<close>.
\<close>

definition AStar_findPath :: "AStar \<Rightarrow> pos \<Rightarrow> pos \<Rightarrow> pos list option" where
  "AStar_findPath a start end =
     (if as_grid a = [] then None
      else astar_loop a (Some end)
             ([(start, Some (of_int (heuristic (as_topologyType a) start end)))], {},
              Map.empty, (\<lambda>_. None)(start := Some 0)))"

definition AStar_findPath_null :: "AStar \<Rightarrow> pos \<Rightarrow> pos list option" where
  "AStar_findPath_null a start =
     (if as_grid a = [] then None
      else astar_loop a None
             ([(start, Some (of_int (heuristic (as_topologyType a) start (0, 0))))], {},
              Map.empty, (\<lambda>_. None)(start := Some 0)))"


subsection \<open>Paths and their cost\<close>

text \<open>
  A cell that the neighbour loop of \<open>AStar.findPath\<close> does not skip for its place: inside
  the bounds \<open>rows\<close> and \<open>cols\<close> that the search reads, and not a wall. A path is a
  non-empty list of cells where every step is one of the directions of the topology and
  lands on such a cell; its cost adds the step costs of the search, \<open>1\<close> for an
  orthogonal and \<open>1.414\<close> for a diagonal step.
\<close>

definition passable :: "grid \<Rightarrow> pos \<Rightarrow> bool" where
  "passable g p =
     (\<not> (fst p < 0 \<or> fst p \<ge> cols g \<or> snd p < 0 \<or> snd p \<ge> rows g) \<and>
      cell g (fst p) (snd p) \<noteq> Some 1)"



text \<open>
  The cells that can be reached from the start, with the cost of one way of reaching
  them; \<open>hval\<close> is the heuristic as a score.
\<close>

definition shift :: "pos \<Rightarrow> pos \<Rightarrow> pos" where
  "shift u d = (fst u + fst d, snd u + snd d)"

inductive reach :: "grid \<Rightarrow> topology \<Rightarrow> pos \<Rightarrow> pos \<Rightarrow> rat \<Rightarrow> bool"
  for g :: grid and topo :: topology and start :: pos where
  reach_start: "reach g topo start start 0"
| reach_step: "reach g topo start u c \<Longrightarrow> d \<in> set (getDirections topo) \<Longrightarrow> passable g (shift u d) \<Longrightarrow>
     reach g topo start (shift u d) (c + moveCost d)"



section \<open>Minimax search\<close>

text \<open>
  The utilities are JavaScript numbers: rationals here, with the two infinities that
  the searches start from.
\<close>

datatype jsnum = NegInf | Fin rat | PosInf

fun js_less :: "jsnum \<Rightarrow> jsnum \<Rightarrow> bool" where
  "js_less NegInf NegInf = False"
| "js_less NegInf _ = True"
| "js_less (Fin a) NegInf = False"
| "js_less (Fin a) (Fin b) = (a < b)"
| "js_less (Fin a) PosInf = True"
| "js_less PosInf _ = False"

definition js_le :: "jsnum \<Rightarrow> jsnum \<Rightarrow> bool" where
  "js_le a b = (js_less a b \<or> a = b)"

definition js_max :: "jsnum \<Rightarrow> jsnum \<Rightarrow> jsnum" where
  "js_max a b = (if js_less a b then b else a)"

definition js_min :: "jsnum \<Rightarrow> jsnum \<Rightarrow> jsnum" where
  "js_min a b = (if js_less b a then b else a)"

text \<open>
  The Minimax class. \<open>visited\<close> gets a cell before each recursive call and loses it
  right after, so the model hands the enlarged set down and keeps its own; \<open>cameFrom\<close>
  is threaded through every call.
\<close>

record Minimax =
  mm_grid :: grid
  mm_topology :: topology
  mm_maxDepth :: nat

definition Minimax_new :: "grid \<Rightarrow> topology \<Rightarrow> Minimax" where
  "Minimax_new g topo = \<lparr> mm_grid = g, mm_topology = topo, mm_maxDepth = 5 \<rparr>"

text \<open>\<open>isWall\<close>, on a grid with at least one row: outside the grid counts as wall.\<close>

definition isWall :: "grid \<Rightarrow> int \<Rightarrow> int \<Rightarrow> bool" where
  "isWall g x y =
     (if x < 0 \<or> x \<ge> cols g \<or> y < 0 \<or> y \<ge> rows g then True
      else cell g x y = Some 1)"

definition openNeighbors :: "grid \<Rightarrow> topology \<Rightarrow> pos \<Rightarrow> pos list" where
  "openNeighbors g topo node =
     filter (\<lambda>n. \<not> isWall g (fst n) (snd n)) (getNeighbors (fst node) (snd node) topo (rows g))"

definition mm_evaluate :: "pos \<Rightarrow> pos \<Rightarrow> jsnum" where
  "mm_evaluate goal state =
     (if state = goal then Fin 1000
      else Fin (of_int (100 - (\<bar>fst state - fst goal\<bar> + \<bar>snd state - snd goal\<bar>))))"

type_synonym came_from = "pos \<rightharpoonup> pos"
type_synonym mm_child = "pos \<Rightarrow> jsnum \<Rightarrow> jsnum \<Rightarrow> pos set \<Rightarrow> came_from \<Rightarrow> jsnum \<times> came_from"

fun mm_maxLoop :: "mm_child \<Rightarrow> pos \<Rightarrow> pos list \<Rightarrow> jsnum \<Rightarrow> jsnum \<Rightarrow> jsnum \<Rightarrow> pos set \<Rightarrow> came_from \<Rightarrow> jsnum \<times> came_from" where
  "mm_maxLoop minValue state [] value alpha beta visited cameFrom = (value, cameFrom)"
| "mm_maxLoop minValue state (move # moves) value alpha beta visited cameFrom =
     (if move \<in> visited then mm_maxLoop minValue state moves value alpha beta visited cameFrom
      else
        (case minValue move alpha beta (insert move visited) cameFrom of
           (v, cameFrom1) \<Rightarrow>
             let value1 = js_max value v in
             if js_le beta value1 then (value1, cameFrom1)
             else
               let alpha1 = js_max alpha value1;
                   cameFrom2 = (if js_less alpha1 value1 then cameFrom1(state \<mapsto> move) else cameFrom1)
               in mm_maxLoop minValue state moves value1 alpha1 beta visited cameFrom2))"

fun mm_minLoop :: "mm_child \<Rightarrow> pos \<Rightarrow> pos list \<Rightarrow> jsnum \<Rightarrow> jsnum \<Rightarrow> jsnum \<Rightarrow> pos set \<Rightarrow> came_from \<Rightarrow> jsnum \<times> came_from" where
  "mm_minLoop maxValue state [] value alpha beta visited cameFrom = (value, cameFrom)"
| "mm_minLoop maxValue state (move # moves) value alpha beta visited cameFrom =
     (if move \<in> visited then mm_minLoop maxValue state moves value alpha beta visited cameFrom
      else
        (case maxValue move alpha beta (insert move visited) cameFrom of
           (v, cameFrom1) \<Rightarrow>
             let value1 = js_min value v in
             if js_le value1 alpha then (value1, cameFrom1)
             else mm_minLoop maxValue state moves value1 alpha (js_min beta value1) visited cameFrom1))"

primrec mm_value :: "nat \<Rightarrow> Minimax \<Rightarrow> pos \<Rightarrow> bool \<Rightarrow> mm_child" where
  "mm_value 0 m goal isMax = (\<lambda>state alpha beta visited cameFrom. (mm_evaluate goal state, cameFrom))"
| "mm_value (Suc d) m goal isMax =
     (\<lambda>state alpha beta visited cameFrom.
        if state = goal then (mm_evaluate goal state, cameFrom)
        else if isMax
        then mm_maxLoop (mm_value d m goal False) state
               (openNeighbors (mm_grid m) (mm_topology m) state) NegInf alpha beta visited cameFrom
        else mm_minLoop (mm_value d m goal True) state
               (openNeighbors (mm_grid m) (mm_topology m) state) PosInf alpha beta visited cameFrom)"

definition mm_maxValue :: "Minimax \<Rightarrow> pos \<Rightarrow> pos \<Rightarrow> nat \<Rightarrow> jsnum \<Rightarrow> jsnum \<Rightarrow> pos set \<Rightarrow> came_from \<Rightarrow> jsnum \<times> came_from" where
  "mm_maxValue m goal state depth = mm_value depth m goal True state"

definition mm_minValue :: "Minimax \<Rightarrow> pos \<Rightarrow> pos \<Rightarrow> nat \<Rightarrow> jsnum \<Rightarrow> jsnum \<Rightarrow> pos set \<Rightarrow> came_from \<Rightarrow> jsnum \<times> came_from" where
  "mm_minValue m goal state depth = mm_value depth m goal False state"

text \<open>
  The loop of \<open>minimaxDecision\<close> (and of \<open>expectimaxDecision\<close>, which differs in the
  child search only): the best value so far, the best move so far and \<open>cameFrom\<close>.
\<close>

fun decisionLoop :: "(pos \<Rightarrow> pos set \<Rightarrow> came_from \<Rightarrow> jsnum \<times> came_from) \<Rightarrow> pos \<Rightarrow> pos list \<Rightarrow> jsnum \<Rightarrow> pos option \<Rightarrow> pos set \<Rightarrow> came_from \<Rightarrow> pos option \<times> came_from" where
  "decisionLoop child state [] bestValue bestMove visited cameFrom = (bestMove, cameFrom)"
| "decisionLoop child state (move # moves) bestValue bestMove visited cameFrom =
     (if move \<in> visited then decisionLoop child state moves bestValue bestMove visited cameFrom
      else
        (case child move (insert move visited) cameFrom of
           (v, cameFrom1) \<Rightarrow>
             if js_less bestValue v
             then decisionLoop child state moves v (Some move) visited (cameFrom1(state \<mapsto> move))
             else decisionLoop child state moves bestValue bestMove visited cameFrom1))"

definition minimaxDecision :: "Minimax \<Rightarrow> pos \<Rightarrow> pos \<Rightarrow> nat \<Rightarrow> pos set \<Rightarrow> came_from \<Rightarrow> pos option \<times> came_from" where
  "minimaxDecision m goal state depth visited cameFrom =
     decisionLoop (\<lambda>move. mm_minValue m goal move (depth - 1) NegInf PosInf) state
       (openNeighbors (mm_grid m) (mm_topology m) state) NegInf None visited cameFrom"

text \<open>
  The loop of \<open>findPath\<close> that follows \<open>cameFrom\<close> from the start, with the source's
  bound of 1000 cells.
\<close>

function followMoves :: "came_from \<Rightarrow> pos \<Rightarrow> pos \<Rightarrow> pos list \<Rightarrow> pos list" where
  "followMoves cameFrom goal current pth =
     (if current = goal then pth
      else (case cameFrom current of
              None \<Rightarrow> pth
            | Some nxt \<Rightarrow>
                let pth1 = pth @ [nxt] in
                if length pth1 > 1000 then pth1
                else if nxt = goal then pth1
                else followMoves cameFrom goal nxt pth1))"
  by pat_completeness auto
termination
  by (relation "measure (\<lambda>(cameFrom, goal, current, pth). 1001 - length pth)") auto

declare followMoves.simps [simp del]

text \<open>The completion of a path that does not end at the goal, by A*.\<close>

definition completeWithAStar :: "grid \<Rightarrow> topology \<Rightarrow> pos \<Rightarrow> pos list \<Rightarrow> pos list option" where
  "completeWithAStar g topo goal pth =
     (if length pth > 0 \<and> last pth \<noteq> goal
      then (case AStar_findPath (AStar_new g topo) (last pth) goal of
              None \<Rightarrow> None
            | Some restOfPath \<Rightarrow>
                Some (if length restOfPath > 1 then pth @ tl restOfPath else pth))
      else Some pth)"

text \<open>
  \<open>Minimax.findPath\<close>. \<open>isWall\<close> answers a negative \<open>x\<close> before it reads
  \<open>this.grid[0]\<close>; on an empty grid that read throws. The test for start and goal being
  the same cell is the source's \<open>start.x === goal.x && start.y === start.y\<close>.
\<close>

definition Minimax_findPath :: "Minimax \<Rightarrow> pos \<Rightarrow> pos \<Rightarrow> pos list option" where
  "Minimax_findPath m start goal =
     (if fst start < 0 then Some []
      else if mm_grid m = [] then None
      else if isWall (mm_grid m) (fst start) (snd start) \<or> isWall (mm_grid m) (fst goal) (snd goal)
      then Some []
      else if fst start = fst goal \<and> snd start = snd start then Some [start]
      else
        (case minimaxDecision m goal start (mm_maxDepth m) {} Map.empty of
           (None, cameFrom) \<Rightarrow> Some [start]
         | (Some bestMove, cameFrom) \<Rightarrow>
             completeWithAStar (mm_grid m) (mm_topology m) goal
               (followMoves cameFrom goal start [start])))"



section \<open>Expectimax search\<close>

text \<open>
  Sums and products of utilities. The probability factor is positive, and no sum of
  the search adds the two infinities.
\<close>

fun js_add :: "jsnum \<Rightarrow> jsnum \<Rightarrow> jsnum" where
  "js_add (Fin a) (Fin b) = Fin (a + b)"
| "js_add NegInf _ = NegInf"
| "js_add _ NegInf = NegInf"
| "js_add PosInf _ = PosInf"
| "js_add _ PosInf = PosInf"

fun js_scale :: "rat \<Rightarrow> jsnum \<Rightarrow> jsnum" where
  "js_scale p (Fin v) = Fin (p * v)"
| "js_scale p NegInf = NegInf"
| "js_scale p PosInf = PosInf"

record Expectimax =
  ex_grid :: grid
  ex_topology :: topology
  ex_maxDepth :: nat

definition Expectimax_new :: "grid \<Rightarrow> topology \<Rightarrow> Expectimax" where
  "Expectimax_new g topo = \<lparr> ex_grid = g, ex_topology = topo, ex_maxDepth = 4 \<rparr>"

definition ex_evaluate :: "Expectimax \<Rightarrow> pos \<Rightarrow> pos \<Rightarrow> jsnum" where
  "ex_evaluate e goal state =
     (if state = goal then Fin 1000
      else
        let distance = \<bar>fst state - fst goal\<bar> + \<bar>snd state - snd goal\<bar>;
            neighbors = getNeighbors (fst state) (snd state) (ex_topology e) (rows (ex_grid e));
            openCount = length (filter (\<lambda>n. \<not> isWall (ex_grid e) (fst n) (snd n)) neighbors);
            openBonus = of_nat openCount / (if ex_topology e = VonNeumann then 4 else 8) * 10
        in Fin (100 - of_int distance + openBonus))"

definition calculateProbability :: "Expectimax \<Rightarrow> pos \<Rightarrow> pos \<Rightarrow> pos \<Rightarrow> rat" where
  "calculateProbability e goal nextState currentState =
     (let distanceToGoal = \<bar>fst nextState - fst goal\<bar> + \<bar>snd nextState - snd goal\<bar>;
          currentDistanceToGoal = \<bar>fst currentState - fst goal\<bar> + \<bar>snd currentState - snd goal\<bar>;
          base1 = (if distanceToGoal < currentDistanceToGoal then 1 * (3 / 2) else 1 * (1 / 2));
          neighbors = getNeighbors (fst nextState) (snd nextState) (ex_topology e) (rows (ex_grid e));
          wallCount = length (filter (\<lambda>n. isWall (ex_grid e) (fst n) (snd n)) neighbors);
          base2 = (if wallCount > 0
                   then base1 * (1 - of_nat wallCount / (of_nat (length neighbors) * 2))
                   else base1)
      in max 0 (min 1 base2))"

type_synonym ex_child = "pos \<Rightarrow> pos set \<Rightarrow> came_from \<Rightarrow> jsnum \<times> came_from"

fun ex_maxLoop :: "ex_child \<Rightarrow> pos \<Rightarrow> pos list \<Rightarrow> jsnum \<Rightarrow> pos set \<Rightarrow> came_from \<Rightarrow> jsnum \<times> came_from" where
  "ex_maxLoop expectValue state [] value visited cameFrom = (value, cameFrom)"
| "ex_maxLoop expectValue state (move # moves) value visited cameFrom =
     (if move \<in> visited then ex_maxLoop expectValue state moves value visited cameFrom
      else
        (case expectValue move (insert move visited) cameFrom of
           (v, cameFrom1) \<Rightarrow>
             let value1 = js_max value v;
                 cameFrom2 = (if js_less NegInf value1 then cameFrom1(state \<mapsto> move) else cameFrom1)
             in ex_maxLoop expectValue state moves value1 visited cameFrom2))"

fun ex_expectLoop :: "Expectimax \<Rightarrow> pos \<Rightarrow> ex_child \<Rightarrow> pos \<Rightarrow> pos list \<Rightarrow> jsnum \<Rightarrow> nat \<Rightarrow> pos set \<Rightarrow> came_from \<Rightarrow> (jsnum \<times> nat) \<times> came_from" where
  "ex_expectLoop e goal maxValue state [] expectedValue validMoves visited cameFrom =
     ((expectedValue, validMoves), cameFrom)"
| "ex_expectLoop e goal maxValue state (move # moves) expectedValue validMoves visited cameFrom =
     (if move \<in> visited
      then ex_expectLoop e goal maxValue state moves expectedValue validMoves visited cameFrom
      else
        (case maxValue move (insert move visited) cameFrom of
           (v, cameFrom1) \<Rightarrow>
             ex_expectLoop e goal maxValue state moves
               (js_add expectedValue (js_scale (calculateProbability e goal move state) v))
               (validMoves + 1) visited cameFrom1))"

primrec ex_value :: "nat \<Rightarrow> Expectimax \<Rightarrow> pos \<Rightarrow> bool \<Rightarrow> ex_child" where
  "ex_value 0 e goal isMax = (\<lambda>state visited cameFrom. (ex_evaluate e goal state, cameFrom))"
| "ex_value (Suc d) e goal isMax =
     (\<lambda>state visited cameFrom.
        if state = goal then (ex_evaluate e goal state, cameFrom)
        else
          let moves = openNeighbors (ex_grid e) (ex_topology e) state in
          if length moves = 0 then (ex_evaluate e goal state, cameFrom)
          else if isMax
          then ex_maxLoop (ex_value d e goal False) state moves NegInf visited cameFrom
          else
            (case ex_expectLoop e goal (ex_value d e goal True) state moves (Fin 0) 0 visited cameFrom of
               ((expectedValue, validMoves), cameFrom1) \<Rightarrow>
                 if validMoves = 0 then (ex_evaluate e goal state, cameFrom1)
                 else (expectedValue, cameFrom1)))"

definition ex_maxValue :: "Expectimax \<Rightarrow> pos \<Rightarrow> pos \<Rightarrow> nat \<Rightarrow> pos set \<Rightarrow> came_from \<Rightarrow> jsnum \<times> came_from" where
  "ex_maxValue e goal state depth = ex_value depth e goal True state"

definition expectValue :: "Expectimax \<Rightarrow> pos \<Rightarrow> pos \<Rightarrow> nat \<Rightarrow> pos set \<Rightarrow> came_from \<Rightarrow> jsnum \<times> came_from" where
  "expectValue e goal state depth = ex_value depth e goal False state"

definition expectimaxDecision :: "Expectimax \<Rightarrow> pos \<Rightarrow> pos \<Rightarrow> nat \<Rightarrow> pos set \<Rightarrow> came_from \<Rightarrow> pos option \<times> came_from" where
  "expectimaxDecision e goal state depth visited cameFrom =
     decisionLoop (\<lambda>move. expectValue e goal move (depth - 1)) state
       (openNeighbors (ex_grid e) (ex_topology e) state) NegInf None visited cameFrom"

text \<open>\<open>Expectimax.findPath\<close>, with the same opening tests as Minimax.\<close>

definition Expectimax_findPath :: "Expectimax \<Rightarrow> pos \<Rightarrow> pos \<Rightarrow> pos list option" where
  "Expectimax_findPath e start goal =
     (if fst start < 0 then Some []
      else if ex_grid e = [] then None
      else if isWall (ex_grid e) (fst start) (snd start) \<or> isWall (ex_grid e) (fst goal) (snd goal)
      then Some []
      else if fst start = fst goal \<and> snd start = snd start then Some [start]
      else
        (case expectimaxDecision e goal start (ex_maxDepth e) {} Map.empty of
           (None, cameFrom) \<Rightarrow> Some [start]
         | (Some bestMove, cameFrom) \<Rightarrow>
             completeWithAStar (ex_grid e) (ex_topology e) goal
               (followMoves cameFrom goal start [start])))"


section \<open>Selecting the pathfinder\<close>

text \<open>
  \<open>currentAlgorithm\<close> is one of the four strings of the selection box; \<open>createPathfinder\<close>
  builds the matching object, each time with \<open>(gridData, currentTopology)\<close>.
\<close>

datatype algorithm = AlgAStar | AlgBFS | AlgMinimax | AlgExpectimax

datatype pathfinder = PF_BFS BFS | PF_Minimax Minimax | PF_Expectimax Expectimax | PF_AStar AStar

definition createPathfinder :: "algorithm \<Rightarrow> topology \<Rightarrow> grid \<Rightarrow> pathfinder" where
  "createPathfinder currentAlgorithm currentTopology gridData =
     (if currentAlgorithm = AlgBFS then PF_BFS (BFS_new gridData currentTopology)
      else if currentAlgorithm = AlgMinimax then PF_Minimax (Minimax_new gridData currentTopology)
      else if currentAlgorithm = AlgExpectimax then PF_Expectimax (Expectimax_new gridData currentTopology)
      else PF_AStar (AStar_new gridData currentTopology))"

text \<open>
  A search whose end position has \<open>null\<close> coordinates. A* and BFS run until the open
  cells are used up. \<open>isWall(null, null)\<close> of Minimax and Expectimax reads
  \<open>this.grid[null][null]\<close>, which throws, unless the start was found to be a wall first.
\<close>

definition Minimax_findPath_null :: "grid \<Rightarrow> pos \<Rightarrow> pos list option" where
  "Minimax_findPath_null g start =
     (if fst start < 0 then Some []
      else if g = [] then None
      else if isWall g (fst start) (snd start) then Some []
      else None)"

fun findPath_null :: "pathfinder \<Rightarrow> pos \<Rightarrow> pos list option" where
  "findPath_null (PF_BFS b) start = BFS_findPath_null b start"
| "findPath_null (PF_Minimax m) start = Minimax_findPath_null (mm_grid m) start"
| "findPath_null (PF_Expectimax e) start = Minimax_findPath_null (ex_grid e) start"
| "findPath_null (PF_AStar a) start = AStar_findPath_null a start"

fun findPath :: "pathfinder \<Rightarrow> pos \<Rightarrow> pos \<Rightarrow> pos list option" where
  "findPath (PF_BFS b) start goal = BFS_findPath b start goal"
| "findPath (PF_Minimax m) start goal = Minimax_findPath m start goal"
| "findPath (PF_Expectimax e) start goal = Expectimax_findPath e start goal"
| "findPath (PF_AStar a) start goal = AStar_findPath a start goal"

definition search :: "pathfinder \<Rightarrow> pos \<Rightarrow> pos option \<Rightarrow> pos list option" where
  "search pf start goal =
     (case goal of None \<Rightarrow> findPath_null pf start | Some e \<Rightarrow> findPath pf start e)"

section \<open>Assignment of agents to targets (the HungarianAlgorithm class)\<close>

definition manhattanDistance :: "pos \<Rightarrow> pos \<Rightarrow> int" where
  "manhattanDistance a b = \<bar>fst a - fst b\<bar> + \<bar>snd a - snd b\<bar>"

text \<open>
  One entry of the cost matrix: the length of the A* path minus one, or ten times the
  Manhattan distance when A* returns the empty path.
\<close>

definition pairCost :: "grid \<Rightarrow> pos \<Rightarrow> pos \<Rightarrow> int option" where
  "pairCost g a t =
     (case AStar_findPath (AStar_new_default g) a t of
        None \<Rightarrow> None
      | Some path \<Rightarrow>
          Some (if length path > 0 then int (length path) - 1 else manhattanDistance a t * 10))"

definition createCostMatrix :: "pos list \<Rightarrow> pos list \<Rightarrow> grid \<Rightarrow> int list list option" where
  "createCostMatrix agents targets g =
     those (map (\<lambda>a. those (map (\<lambda>t. pairCost g a t) targets)) agents)"

text \<open>\<open>Math.min(...row)\<close>; \<open>None\<close> is the \<open>Infinity\<close> of an empty row.\<close>

definition rowMinimum :: "int list \<Rightarrow> int option" where
  "rowMinimum row = (case row of [] \<Rightarrow> None | c # cs \<Rightarrow> Some (fold min cs c))"

definition subtractRowMinimum :: "int list \<Rightarrow> int list" where
  "subtractRowMinimum row =
     (case rowMinimum row of None \<Rightarrow> row | Some minVal \<Rightarrow> map (\<lambda>c. c - minVal) row)"

text \<open>The minimum of column \<open>j\<close>, starting from \<open>Infinity\<close>.\<close>

definition columnMinimum :: "nat \<Rightarrow> int list list \<Rightarrow> int option" where
  "columnMinimum j costs =
     fold (\<lambda>row minVal.
             case minVal of None \<Rightarrow> Some (row ! j)
             | Some v \<Rightarrow> if row ! j < v then Some (row ! j) else Some v)
          costs None"

definition subtractColumnMinimum :: "nat \<Rightarrow> int list list \<Rightarrow> int list list" where
  "subtractColumnMinimum j costs =
     (case columnMinimum j costs of
        None \<Rightarrow> costs
      | Some minVal \<Rightarrow> map (\<lambda>row. row[j := row ! j - minVal]) costs)"

text \<open>
  The scan of one row for the uncovered column of least cost: the state is
  \<open>(minVal, minJ)\<close>, starting at \<open>(Infinity, -1)\<close>, written \<open>(None, None)\<close>.
\<close>

definition scanColumn :: "int list \<Rightarrow> bool list \<Rightarrow> nat \<Rightarrow> int option \<times> nat option \<Rightarrow> int option \<times> nat option" where
  "scanColumn row colCovered j st =
     (case st of (minVal, minJ) \<Rightarrow>
        if \<not> colCovered ! j \<and> (case minVal of None \<Rightarrow> True | Some v \<Rightarrow> row ! j < v)
        then (Some (row ! j), Some j) else st)"

definition findMinColumn :: "int list \<Rightarrow> bool list \<Rightarrow> nat \<Rightarrow> nat option" where
  "findMinColumn row colCovered w = snd (fold (scanColumn row colCovered) [0..<w] (None, None))"

type_synonym assign_state = "(nat \<times> nat) list \<times> bool list \<times> bool list"

text \<open>The first loop of \<open>findAssignments\<close>, for one agent row \<open>i\<close>.\<close>

definition greedyRow :: "int list list \<Rightarrow> nat \<Rightarrow> nat \<Rightarrow> assign_state \<Rightarrow> assign_state" where
  "greedyRow costs w i st =
     (case st of (assignments, rowCovered, colCovered) \<Rightarrow>
        (case findMinColumn (costs ! i) colCovered w of
           None \<Rightarrow> st
         | Some minJ \<Rightarrow>
             (assignments @ [(i, minJ)], rowCovered[i := True], colCovered[minJ := True])))"

text \<open>The second loop, for one row: an uncovered row takes the first uncovered column.\<close>

definition firstUncovered :: "bool list \<Rightarrow> nat \<Rightarrow> nat option" where
  "firstUncovered colCovered w = find (\<lambda>j. \<not> colCovered ! j) [0..<w]"

definition leftoverRow :: "nat \<Rightarrow> nat \<Rightarrow> assign_state \<Rightarrow> assign_state" where
  "leftoverRow w i st =
     (case st of (assignments, rowCovered, colCovered) \<Rightarrow>
        if \<not> rowCovered ! i
        then (case firstUncovered colCovered w of
                None \<Rightarrow> st
              | Some j \<Rightarrow> (assignments @ [(i, j)], rowCovered, colCovered[j := True]))
        else st)"

definition findAssignments :: "int list list \<Rightarrow> nat \<Rightarrow> nat \<Rightarrow> (nat \<times> nat) list" where
  "findAssignments costs h w =
     fst (fold (leftoverRow w) [0..<h]
            (fold (greedyRow costs w) [0..<h] ([], replicate h False, replicate w False)))"

definition hungarianAlgorithm :: "int list list \<Rightarrow> (nat \<times> nat) list" where
  "hungarianAlgorithm costMatrix =
     (if length costMatrix = 0 then []
      else
        let h = length costMatrix;
            w = length (costMatrix ! 0);
            costs1 = map subtractRowMinimum costMatrix;
            costs2 = fold subtractColumnMinimum [0..<w] costs1
        in findAssignments costs2 h w)"

record assignment =
  agent :: nat
  target :: nat

definition findOptimalAssignment :: "pos list \<Rightarrow> pos list \<Rightarrow> grid \<Rightarrow> assignment list option" where
  "findOptimalAssignment agents targets g =
     (case createCostMatrix agents targets g of
        None \<Rightarrow> None
      | Some costMatrix \<Rightarrow>
          Some (map (\<lambda>(row, col). \<lparr> agent = row, target = col \<rparr>) (hungarianAlgorithm costMatrix)))"


section \<open>Agents\<close>

text \<open>
  An agent object. The target is \<open>null\<close> until an assignment runs, which is \<open>None\<close>;
  the visibility range is a number or \<open>Infinity\<close>, which is \<open>None\<close>.
  The fields \<open>needsToReturnToTarget\<close>, \<open>originalTarget\<close>, \<open>targetCooldown\<close> and
  \<open>needsRecalculation\<close> are written by the source and read nowhere, so the record leaves
  them out.
\<close>

record agent =
  agent_id :: nat
  agent_x :: int
  agent_y :: int
  targetX :: "int option"
  targetY :: "int option"
  path :: "pos list"
  isRetreating :: bool
  visibilityRange :: "int option"

text \<open>The object literal of \<open>addAgent\<close>: no target, empty path.\<close>

definition new_agent :: "nat \<Rightarrow> int \<Rightarrow> int \<Rightarrow> int option \<Rightarrow> agent" where
  "new_agent i x y vis =
     \<lparr> agent_id = i, agent_x = x, agent_y = y, targetX = None, targetY = None, path = [],
       isRetreating = False, visibilityRange = vis \<rparr>"

definition with_target :: "agent \<Rightarrow> pos \<Rightarrow> agent" where
  "with_target a t = a\<lparr> targetX := Some (fst t), targetY := Some (snd t) \<rparr>"

definition agent_pos :: "agent \<Rightarrow> pos" where
  "agent_pos a = (agent_x a, agent_y a)"

text \<open>\<open>a.x === a.targetX && a.y === a.targetY\<close>; a \<open>null\<close> target equals no coordinate.\<close>

definition at_target :: "agent \<Rightarrow> bool" where
  "at_target a = (targetX a = Some (agent_x a) \<and> targetY a = Some (agent_y a))"

text \<open>A \<open>null\<close> in arithmetic is \<open>0\<close>.\<close>

definition num :: "int option \<Rightarrow> int" where
  "num v = (case v of None \<Rightarrow> 0 | Some n \<Rightarrow> n)"

text \<open>\<open>agents.find(a => a.id === agentId)\<close>, as the index of the first such agent.\<close>

definition find_agent :: "agent list \<Rightarrow> nat \<Rightarrow> nat option" where
  "find_agent ags i = find (\<lambda>k. agent_id (ags ! k) = i) [0..<length ags]"

text \<open>
  The end position \<open>{x: agent.targetX, y: agent.targetY}\<close> handed to a search. The two
  target fields are written together everywhere in the source; \<open>None\<close> is the position
  with \<open>null\<close> coordinates of an agent without target.
\<close>

definition agent_goal :: "agent \<Rightarrow> pos option" where
  "agent_goal a =
     (case (targetX a, targetY a) of (Some tx, Some ty) \<Rightarrow> Some (tx, ty) | _ \<Rightarrow> None)"

definition AStar_search :: "AStar \<Rightarrow> pos \<Rightarrow> pos option \<Rightarrow> pos list option" where
  "AStar_search a start goal =
     (case goal of None \<Rightarrow> AStar_findPath_null a start | Some e \<Rightarrow> AStar_findPath a start e)"

section \<open>The deadlock handler (deadlockHandler.js)\<close>

text \<open>
  The handler keeps references to the grid and to the agent array, a counter, and two
  \<open>Map\<close>s keyed by agent id; a \<open>Map\<close> iterates in insertion order, so both are
  association lists.
\<close>

record DeadlockHandler =
  dh_grid :: grid
  dh_agents :: "agent list"
  deadlockCount :: nat
  waitingTime :: "(nat \<times> nat) list"
  previousPositions :: "(nat \<times> pos) list"
  waitingThreshold :: nat

definition DeadlockHandler_new :: "grid \<Rightarrow> agent list \<Rightarrow> DeadlockHandler" where
  "DeadlockHandler_new g ags =
     \<lparr> dh_grid = g, dh_agents = ags, deadlockCount = 0, waitingTime = [],
       previousPositions = [], waitingThreshold = 3 \<rparr>"

definition trackAgent :: "agent \<Rightarrow> DeadlockHandler \<Rightarrow> DeadlockHandler" where
  "trackAgent a h =
     (let posKey = agent_pos a;
          prevPosKey = map_of (previousPositions h) (agent_id a);
          h1 = (if prevPosKey = Some posKey
                then h\<lparr> waitingTime := AList.update (agent_id a)
                        ((case map_of (waitingTime h) (agent_id a) of None \<Rightarrow> 0 | Some v \<Rightarrow> v) + 1)
                        (waitingTime h) \<rparr>
                else h\<lparr> waitingTime := AList.update (agent_id a) 0 (waitingTime h) \<rparr>)
      in h1\<lparr> previousPositions := AList.update (agent_id a) posKey (previousPositions h1) \<rparr>)"

definition updatePositionTracking :: "DeadlockHandler \<Rightarrow> DeadlockHandler" where
  "updatePositionTracking h = fold trackAgent (dh_agents h) h"

text \<open>The wait-for map: agent id to the id of the agent standing on its next step.\<close>

definition waitsFor :: "agent list \<Rightarrow> agent \<Rightarrow> (nat \<times> nat) list \<Rightarrow> (nat \<times> nat) list" where
  "waitsFor ags a m =
     (if length (path a) \<le> 1 then m
      else
        let nextStep = path a ! 1 in
        fold (\<lambda>other m'.
                if agent_id a \<noteq> agent_id other \<and> agent_pos other = nextStep
                then AList.update (agent_id a) (agent_id other) m' else m')
             ags m)"

text \<open>
  The walk along the wait-for map from \<open>current\<close>: it stops when \<open>current\<close> waits for
  nobody (no cycle, \<open>None\<close>) or was visited already (a cycle: the visited ids).
\<close>

function cycleWalk :: "(nat \<times> nat) list \<Rightarrow> nat \<Rightarrow> nat list \<Rightarrow> nat list option" where
  "cycleWalk m current visited =
     (case map_of m current of
        None \<Rightarrow> None
      | Some nxt \<Rightarrow>
          if current \<in> set visited then Some visited
          else cycleWalk m nxt (visited @ [current]))"
  by pat_completeness auto
termination
proof (relation "measure (\<lambda>(m, current, visited). card (fst ` set m - set visited))", goal_cases)
  case 1
  then show ?case by simp
next
  case (2 m current visited nxt)
  then have "current \<in> fst ` set m" by (metis domI dom_map_of_conv_image_fst)
  then have "current \<in> fst ` set m - set visited" using 2 by simp
  then have "card ((fst ` set m - set visited) - {current}) < card (fst ` set m - set visited)"
    by (intro card_Diff1_less) auto
  moreover have "fst ` set m - set (visited @ [current]) = (fst ` set m - set visited) - {current}"
    by auto
  ultimately show ?case by simp
qed

declare cycleWalk.simps [simp del]

definition addCycle :: "(nat \<times> nat) list \<Rightarrow> nat \<times> nat \<Rightarrow> nat list \<Rightarrow> nat list" where
  "addCycle m e deadlockedAgents =
     (case cycleWalk m (snd e) [fst e] of
        None \<Rightarrow> deadlockedAgents
      | Some visited \<Rightarrow>
          fold (\<lambda>i d. if i \<in> set d then d else d @ [i]) visited deadlockedAgents)"

definition detectCircularDeadlocks :: "DeadlockHandler \<Rightarrow> nat list \<Rightarrow> nat list" where
  "detectCircularDeadlocks h deadlockedAgents =
     (let agentWaitingFor = fold (waitsFor (dh_agents h)) (dh_agents h) []
      in fold (addCycle agentWaitingFor) agentWaitingFor deadlockedAgents)"

definition detectDeadlocks :: "DeadlockHandler \<Rightarrow> nat list" where
  "detectDeadlocks h =
     detectCircularDeadlocks h
       (map fst (filter (\<lambda>(agentId, waitTime). waitTime \<ge> waitingThreshold h) (waitingTime h)))"

text \<open>
  The assignment \<open>grid[y][x] = v\<close> to a cell of the grid. Where \<open>(x, y)\<close> is no cell of
  the grid the model leaves the grid as it is: this is what the source does for a
  negative column index (the write adds a property and changes no cell); for a row
  index without row the source throws a \<open>TypeError\<close>, and for a column index past the
  end of the row it makes the row longer. The statements below that depend on such a
  write are made for agents that stand on cells of the grid.
\<close>

definition grid_set :: "grid \<Rightarrow> int \<Rightarrow> int \<Rightarrow> int \<Rightarrow> grid" where
  "grid_set g x y v =
     (if 0 \<le> y \<and> y < rows g \<and> 0 \<le> x \<and> x < int (length (g ! nat y))
      then g[nat y := (g ! nat y)[nat x := v]]
      else g)"

text \<open>
  The same assignment to the copy that \<open>createModifiedGrid\<close> builds, with all that
  JavaScript does: without a row \<open>y\<close> the write throws (\<open>None\<close>), a negative column
  index changes no cell, and a column index past the end makes the row longer. The
  new cells in between are holes that read \<open>undefined\<close>; only the search reads this
  copy, and it asks of a cell whether it is \<open>1\<close>, so the model fills the holes with \<open>0\<close>.
\<close>

definition writeCell :: "grid \<Rightarrow> int \<Rightarrow> int \<Rightarrow> int \<Rightarrow> grid option" where
  "writeCell g x y v =
     (if y < 0 \<or> y \<ge> rows g then None
      else if x < 0 then Some g
      else
        let row = g ! nat y;
            row1 = (if x < int (length row) then row[nat x := v]
                    else row @ replicate (nat x - length row) 0 @ [v])
        in Some (g[nat y := row1]))"

text \<open>
  \<open>createModifiedGrid\<close>: a copy of the grid in which the cell of every agent is set to
  \<open>1\<close>, the wall value; for an agent on its target the source writes the same value a
  second time. Reading \<open>this.grid[0].length\<close> of an empty grid throws.
\<close>

definition markAgent :: "agent \<Rightarrow> grid option \<Rightarrow> grid option" where
  "markAgent a modifiedGrid =
     (case modifiedGrid of
        None \<Rightarrow> None
      | Some g \<Rightarrow>
          (case writeCell g (agent_x a) (agent_y a) 1 of
             None \<Rightarrow> None
           | Some g1 \<Rightarrow> if at_target a then writeCell g1 (agent_x a) (agent_y a) 1 else Some g1))"

definition createModifiedGrid :: "DeadlockHandler \<Rightarrow> grid option" where
  "createModifiedGrid h =
     (if dh_grid h = [] then None else fold markAgent (dh_agents h) (Some (dh_grid h)))"

text \<open>
  \<open>findAlternativePath\<close> for the agent at index \<open>i\<close>: A* with the default topology on the
  modified grid; a path of more than one cell replaces the agent's path.
\<close>

definition set_path :: "nat \<Rightarrow> pos list \<Rightarrow> agent list \<Rightarrow> agent list" where
  "set_path i p ags = ags[i := (ags ! i)\<lparr> path := p \<rparr>]"

definition findAlternativePath :: "DeadlockHandler \<Rightarrow> nat \<Rightarrow> (bool \<times> DeadlockHandler) option" where
  "findAlternativePath h i =
     (case createModifiedGrid h of
        None \<Rightarrow> None
      | Some modifiedGrid \<Rightarrow>
          let astar = AStar_new_default modifiedGrid
          in case AStar_search astar (agent_pos (dh_agents h ! i)) (agent_goal (dh_agents h ! i)) of
               None \<Rightarrow> None
             | Some newPath \<Rightarrow>
                 if length newPath > 1
                 then Some (True, h\<lparr> dh_agents := set_path i newPath (dh_agents h) \<rparr>)
                 else Some (False, h))"

text \<open>
  \<open>temporaryRetreat\<close>: the free orthogonal neighbour nearest to the target becomes a
  two-cell path.
\<close>

definition retreatOption :: "DeadlockHandler \<Rightarrow> agent \<Rightarrow> pos \<Rightarrow> (pos \<times> int) option" where
  "retreatOption h a dir =
     (let nx = agent_x a + fst dir; ny = agent_y a + snd dir in
      if nx \<ge> 0 \<and> nx < cols (dh_grid h) \<and> ny \<ge> 0 \<and> ny < rows (dh_grid h) \<and>
         cell (dh_grid h) nx ny \<noteq> Some 1
      then
        (if list_ex (\<lambda>b. agent_id b \<noteq> agent_id a \<and> agent_x b = nx \<and> agent_y b = ny) (dh_agents h)
         then None
         else Some ((nx, ny), \<bar>nx - num (targetX a)\<bar> + \<bar>ny - num (targetY a)\<bar>))
      else None)"

definition temporaryRetreat :: "DeadlockHandler \<Rightarrow> nat \<Rightarrow> (bool \<times> DeadlockHandler) option" where
  "temporaryRetreat h i =
     (if dh_grid h = [] then None
      else
        let a = dh_agents h ! i;
            retreatOptions = sort_key snd
              (List.map_filter (retreatOption h a) [(0, -1), (1, 0), (0, 1), (-1, 0)])
        in case retreatOptions of
             [] \<Rightarrow> Some (False, h)
           | retreat # _ \<Rightarrow>
               Some (True, h\<lparr> dh_agents :=
                  (dh_agents h)[i := a\<lparr> path := [agent_pos a, fst retreat], isRetreating := True \<rparr>] \<rparr>))"

text \<open>\<open>createClearedPathForAgent\<close>: A* on the grid with the walls only.\<close>

definition wallsOnly :: "grid \<Rightarrow> grid" where
  "wallsOnly g = map (map (\<lambda>c. if c = 1 then 1 else 0)) g"

definition createClearedPathForAgent :: "DeadlockHandler \<Rightarrow> nat \<Rightarrow> (bool \<times> DeadlockHandler) option" where
  "createClearedPathForAgent h i =
     (let astar = AStar_new_default (wallsOnly (dh_grid h))
      in case AStar_search astar (agent_pos (dh_agents h ! i)) (agent_goal (dh_agents h ! i)) of
           None \<Rightarrow> None
         | Some p \<Rightarrow>
             if length p > 1
             then Some (True, h\<lparr> dh_agents := set_path i p (dh_agents h) \<rparr>)
             else Some (False, h))"

text \<open>
  The default \<open>Array.prototype.sort()\<close> compares the elements as strings: the ids are
  ordered by their decimal digits, lexicographically.
\<close>

fun decimal :: "nat \<Rightarrow> nat list" where
  "decimal n = (if n < 10 then [n] else decimal (n div 10) @ [n mod 10])"

declare decimal.simps [simp del]

definition defaultSort :: "nat list \<Rightarrow> nat list" where
  "defaultSort ids = sort_key decimal ids"

text \<open>The body of the \<open>forEach\<close> of \<open>resolveDeadlocks\<close>, for one agent id.\<close>

definition resolveOne :: "nat \<Rightarrow> DeadlockHandler \<Rightarrow> DeadlockHandler option" where
  "resolveOne agentId h =
     (case find_agent (dh_agents h) agentId of
        None \<Rightarrow> Some h
      | Some i \<Rightarrow>
          (case findAlternativePath h i of
             None \<Rightarrow> None
           | Some (True, h1) \<Rightarrow> Some h1
           | Some (False, h1) \<Rightarrow>
               (case temporaryRetreat h1 i of
                  None \<Rightarrow> None
                | Some (True, h2) \<Rightarrow> Some h2
                | Some (False, h2) \<Rightarrow> map_option snd (createClearedPathForAgent h2 i))))"

fun resolveAll :: "nat list \<Rightarrow> DeadlockHandler \<Rightarrow> DeadlockHandler option" where
  "resolveAll [] h = Some h"
| "resolveAll (agentId # ids) h =
     (case resolveOne agentId h of None \<Rightarrow> None | Some h1 \<Rightarrow> resolveAll ids h1)"

definition resolveDeadlocks :: "DeadlockHandler \<Rightarrow> nat list \<Rightarrow> DeadlockHandler option" where
  "resolveDeadlocks h deadlockedAgentIds =
     (if length deadlockedAgentIds = 0 then Some h
      else resolveAll (defaultSort deadlockedAgentIds) (h\<lparr> deadlockCount := deadlockCount h + 1 \<rparr>))"

definition getDeadlockCount :: "DeadlockHandler \<Rightarrow> nat" where
  "getDeadlockCount h = deadlockCount h"

text \<open>Every agent of the handler stands on a row of the handler's grid.\<close>

definition agentsOnRows :: "DeadlockHandler \<Rightarrow> bool" where
  "agentsOnRows h = (\<forall>a \<in> set (dh_agents h). 0 \<le> agent_y a \<and> agent_y a < rows (dh_grid h))"


text \<open>
  The operations a caller can run on a handler, for stating properties of every sequence
  of calls. \<open>OpWorld\<close> stands for the simulation changing the shared grid and agent
  array between two calls.
\<close>

datatype dh_op =
    OpUpdatePositionTracking
  | OpDetectDeadlocks
  | OpResolveDeadlocks "nat list"
  | OpGetDeadlockCount
  | OpWorld grid "agent list"

fun dh_apply :: "dh_op \<Rightarrow> DeadlockHandler \<Rightarrow> DeadlockHandler option" where
  "dh_apply OpUpdatePositionTracking h = Some (updatePositionTracking h)"
| "dh_apply OpDetectDeadlocks h = Some h"
| "dh_apply (OpResolveDeadlocks ids) h = resolveDeadlocks h ids"
| "dh_apply OpGetDeadlockCount h = Some h"
| "dh_apply (OpWorld g ags) h = Some (h\<lparr> dh_grid := g, dh_agents := ags \<rparr>)"

fun dh_run :: "dh_op list \<Rightarrow> DeadlockHandler \<Rightarrow> DeadlockHandler option" where
  "dh_run [] h = Some h"
| "dh_run (op # ops) h = (case dh_apply op h of None \<Rightarrow> None | Some h1 \<Rightarrow> dh_run ops h1)"

fun resolve_calls :: "dh_op list \<Rightarrow> nat" where
  "resolve_calls [] = 0"
| "resolve_calls (OpResolveDeadlocks ids # ops) = (if ids = [] then 0 else 1) + resolve_calls ops"
| "resolve_calls (_ # ops) = resolve_calls ops"


section \<open>The simulation state (the globals of the main script)\<close>

datatype decision_mode = Centralized | Distributed

text \<open>
  The callbacks handed to \<open>setTimeout\<close>: the restart after five failed ticks (which
  switches to sequential movement first), the restart after a repeated deadlock, and
  the restoring of an agent's visibility range.
\<close>

datatype timer = RestartSequential | RestartSimulation | RestoreVisibility nat "int option"

text \<open>
  The deadlock handler holds the grid and the agent array it was built with. The two
  flags say whether these are still the arrays of the globals \<open>grid\<close> and \<open>agents\<close>
  (\<open>clearAgents\<close> and \<open>clearWalls\<close> replace a global by a new array). \<open>randomCalls\<close>
  counts the draws from the random source.
\<close>

record sim =
  sim_grid :: grid
  agents :: "agent list"
  targetPositions :: "pos list"
  gridSize :: int
  isSimulationRunning :: bool
  simulationInterval :: bool
  totalMoves :: nat
  deadlockHandler :: DeadlockHandler
  handlerSharesGrid :: bool
  handlerSharesAgents :: bool
  failedDeadlockResolutionAttempts :: nat
  sequentialMovementMode :: bool
  sequentialMovesRemaining :: int
  currentDecisionMode :: decision_mode
  currentAlgorithm :: algorithm
  currentTopology :: topology
  lastDeadlockSignature :: "(nat \<times> (pos \<times> pos option) option) list"
  repeatedDeadlockCount :: nat
  timers :: "timer list"
  randomCalls :: nat

text \<open>
  The random source: \<open>random n\<close> is the value of the \<open>n\<close>-th call of \<open>Math.random()\<close>,
  and \<open>shuffle n xs\<close> the order that \<open>xs.sort(() => Math.random() - 0.5)\<close> leaves when it
  starts at call \<open>n\<close>.
\<close>

record env =
  random :: "nat \<Rightarrow> rat"
  shuffle :: "nat \<Rightarrow> pos list \<Rightarrow> pos list"

text \<open>The handler as its methods see it, and the writing back of what they changed.\<close>

definition handlerView :: "sim \<Rightarrow> DeadlockHandler" where
  "handlerView s =
     (deadlockHandler s)\<lparr>
        dh_grid := (if handlerSharesGrid s then sim_grid s else dh_grid (deadlockHandler s)),
        dh_agents := (if handlerSharesAgents s then agents s else dh_agents (deadlockHandler s)) \<rparr>"

definition handlerStore :: "DeadlockHandler \<Rightarrow> sim \<Rightarrow> sim" where
  "handlerStore h s =
     s\<lparr> deadlockHandler := h,
        agents := (if handlerSharesAgents s then dh_agents h else agents s) \<rparr>"

text \<open>Updates of one agent of the array.\<close>

definition upd_agent :: "nat \<Rightarrow> (agent \<Rightarrow> agent) \<Rightarrow> sim \<Rightarrow> sim" where
  "upd_agent i f s = s\<lparr> agents := (agents s)[i := f (agents s ! i)] \<rparr>"

text \<open>\<open>createPathfinder(g).findPath(start, goal)\<close> with the current algorithm and topology.\<close>

definition plan :: "sim \<Rightarrow> grid \<Rightarrow> pos \<Rightarrow> pos option \<Rightarrow> pos list option" where
  "plan s g start goal = search (createPathfinder (currentAlgorithm s) (currentTopology s) g) start goal"

text \<open>A grid built cell by cell from the coordinates and the old cell.\<close>

definition mapGrid :: "(int \<Rightarrow> int \<Rightarrow> int \<Rightarrow> int) \<Rightarrow> grid \<Rightarrow> grid" where
  "mapGrid f g =
     map (\<lambda>(y, row). map (\<lambda>(x, c). f (int x) (int y) c) (enumerate 0 row)) (enumerate 0 g)"

text \<open>\<open>distance > range\<close> and \<open>distance <= range\<close> for a range that may be \<open>Infinity\<close>.\<close>

definition beyond :: "int option \<Rightarrow> int \<Rightarrow> bool" where
  "beyond vis distance = (case vis of None \<Rightarrow> False | Some r \<Rightarrow> distance > r)"

definition manhattan :: "int \<Rightarrow> int \<Rightarrow> int \<Rightarrow> int \<Rightarrow> int" where
  "manhattan x1 y1 x2 y2 = \<bar>x1 - x2\<bar> + \<bar>y1 - y2\<bar>"

text \<open>
  The cells farther from the agent than its visibility range become walls; with
  \<open>keepTarget\<close> the agent's own target cell is left as it is.
\<close>

definition visibilityMask :: "agent \<Rightarrow> int option \<Rightarrow> pos option \<Rightarrow> grid \<Rightarrow> grid" where
  "visibilityMask a vis keep g =
     mapGrid (\<lambda>x y c.
        if beyond vis (manhattan x y (agent_x a) (agent_y a)) \<and> keep \<noteq> Some (x, y)
        then CELL_WALL else c) g"

text \<open>\<open>a.id !== agent.id && a.x === x && a.y === y\<close> for some agent of the array.\<close>

definition occupiedByOther :: "agent list \<Rightarrow> agent \<Rightarrow> int \<Rightarrow> int \<Rightarrow> bool" where
  "occupiedByOther ags a x y =
     list_ex (\<lambda>b. agent_id b \<noteq> agent_id a \<and> agent_x b = x \<and> agent_y b = y) ags"

text \<open>The same test restricted to the agents within the visibility range of \<open>a\<close>.\<close>

definition occupiedByVisible :: "agent list \<Rightarrow> agent \<Rightarrow> int \<Rightarrow> int \<Rightarrow> bool" where
  "occupiedByVisible ags a x y =
     list_ex (\<lambda>b. agent_id b \<noteq> agent_id a \<and> agent_x b = x \<and> agent_y b = y \<and>
                  \<not> beyond (visibilityRange a) (manhattan (agent_x b) (agent_y b) (agent_x a) (agent_y a)))
       ags"

subsection \<open>findTemporaryTarget\<close>

text \<open>
  The candidate cells of the square around the agent, row by row, with their scores.
  A function that calls the pathfinder outside a \<open>try\<close> can throw: its result is
  \<open>None\<close> then, next to the state at the time of the throw.
\<close>

definition retreatCandidate :: "sim \<Rightarrow> agent \<Rightarrow> int \<Rightarrow> int \<Rightarrow> (pos \<times> int) option" where
  "retreatCandidate s a dx dy =
     (if dx = 0 \<and> dy = 0 then None
      else
        let nx = agent_x a + dx; ny = agent_y a + dy in
        if nx \<ge> 0 \<and> nx < gridSize s \<and> ny \<ge> 0 \<and> ny < gridSize s
        then
          let isEmpty = (cell (sim_grid s) nx ny \<noteq> Some CELL_WALL);
              isOccupied = (if currentDecisionMode s = Distributed
                            then occupiedByVisible (agents s) a nx ny
                            else occupiedByOther (agents s) a nx ny)
          in if isEmpty \<and> \<not> isOccupied
             then
               let distToTarget = \<bar>nx - num (targetX a)\<bar> + \<bar>ny - num (targetY a)\<bar>;
                   distFromCurrent = \<bar>nx - agent_x a\<bar> + \<bar>ny - agent_y a\<bar>
               in Some ((nx, ny), distToTarget * 2 + distFromCurrent)
             else None
        else None)"

definition searchRadius :: "sim \<Rightarrow> agent \<Rightarrow> int" where
  "searchRadius s a =
     (if currentDecisionMode s = Distributed
      then (case visibilityRange a of None \<Rightarrow> 3 | Some v \<Rightarrow> min 3 v)
      else 3)"

definition retreatOptions :: "sim \<Rightarrow> agent \<Rightarrow> (pos \<times> int) list" where
  "retreatOptions s a =
     (let r = searchRadius s a in
      List.map_filter (\<lambda>(dy, dx). retreatCandidate s a dx dy)
        (List.product [- r..r] [- r..r]))"

definition findTemporaryTarget :: "nat \<Rightarrow> sim \<Rightarrow> bool option \<times> sim" where
  "findTemporaryTarget i s =
     (let a = agents s ! i in
      case sort_key snd (retreatOptions s a) of
        [] \<Rightarrow> (Some False, s)
      | retreat # _ \<Rightarrow>
          let clearedGrid = wallsOnly (sim_grid s);
              clearedGrid1 = (if currentDecisionMode s = Distributed
                              then visibilityMask a (visibilityRange a) None clearedGrid
                              else clearedGrid)
          in case plan s clearedGrid1 (agent_pos a) (Some (fst retreat)) of
               None \<Rightarrow> (None, s)
             | Some retreatPath \<Rightarrow>
                 if length retreatPath > 1
                 then (Some True, upd_agent i (\<lambda>a. a\<lparr> path := retreatPath, isRetreating := True \<rparr>) s)
                 else (Some False, s))"

subsection \<open>findPathIgnoringAgents\<close>

text \<open>The whole body is inside \<open>try\<close>; a throw makes the result \<open>false\<close>.\<close>

definition findPathIgnoringAgents :: "nat \<Rightarrow> sim \<Rightarrow> bool \<times> sim" where
  "findPathIgnoringAgents i s =
     (let a = agents s ! i;
          clearedGrid = wallsOnly (sim_grid s);
          clearedGrid1 = (if currentDecisionMode s = Distributed
                          then visibilityMask a (visibilityRange a) (agent_goal a) clearedGrid
                          else clearedGrid)
      in case plan s clearedGrid1 (agent_pos a) (agent_goal a) of
           None \<Rightarrow> (False, s)
         | Some pth \<Rightarrow>
             if length pth > 1 then (True, upd_agent i (\<lambda>a. a\<lparr> path := pth \<rparr>) s)
             else (case findTemporaryTarget i s of
                     (None, s1) \<Rightarrow> (False, s1)
                   | (Some _, s1) \<Rightarrow> (False, s1)))"

subsection \<open>calculatePath\<close>

text \<open>
  The grid copy the agent plans on. Centralized: the other agents that are on their
  target or have no path to walk are walls, the rest are empty cells. Distributed: the
  cells out of range are walls (the own target apart), and so are the agents in range.
\<close>

definition planningGrid :: "sim \<Rightarrow> agent \<Rightarrow> grid" where
  "planningGrid s a =
     (if currentDecisionMode s = Centralized
      then fold (\<lambda>b g. if agent_id b \<noteq> agent_id a
                        then (if at_target b \<or> length (path b) \<le> 1
                              then grid_set g (agent_x b) (agent_y b) CELL_WALL
                              else grid_set g (agent_x b) (agent_y b) CELL_EMPTY)
                        else g)
             (agents s) (sim_grid s)
      else fold (\<lambda>b g. if agent_id b \<noteq> agent_id a \<and>
                           \<not> beyond (visibilityRange a)
                                (manhattan (agent_x b) (agent_y b) (agent_x a) (agent_y a))
                        then grid_set g (agent_x b) (agent_y b) CELL_WALL
                        else g)
             (agents s) (visibilityMask a (visibilityRange a) (agent_goal a) (sim_grid s)))"

definition calculatePath :: "nat \<Rightarrow> sim \<Rightarrow> sim" where
  "calculatePath i s =
     (let a = agents s ! i in
      if at_target a then upd_agent i (\<lambda>a. a\<lparr> path := [agent_pos a] \<rparr>) s
      else
        (case plan s (planningGrid s a) (agent_pos a) (agent_goal a) of
           None \<Rightarrow> s
         | Some pth \<Rightarrow>
             if length pth > 0
             then (if length pth = 1 then snd (findPathIgnoringAgents i s)
                   else upd_agent i (\<lambda>a. a\<lparr> path := pth \<rparr>) s)
             else snd (findPathIgnoringAgents i s)))"


subsection \<open>The commits outside the path step\<close>

text \<open>Moving agent \<open>i\<close> to a cell: the two grid writes around the position write.\<close>

definition moveAgentTo :: "nat \<Rightarrow> pos \<Rightarrow> sim \<Rightarrow> sim" where
  "moveAgentTo i p s =
     (let a = agents s ! i;
          g1 = grid_set (sim_grid s) (agent_x a) (agent_y a) CELL_EMPTY;
          g2 = grid_set g1 (fst p) (snd p) CELL_AGENT
      in (upd_agent i (\<lambda>a. a\<lparr> agent_x := fst p, agent_y := snd p \<rparr>) s)\<lparr> sim_grid := g2 \<rparr>)"

text \<open>
  \<open>moveAgentTemporarilyForced\<close>: an agent on its target steps to the free neighbour
  farthest from the target and gets the two-cell path back.
\<close>

definition freeNeighbour :: "sim \<Rightarrow> agent \<Rightarrow> pos \<Rightarrow> bool" where
  "freeNeighbour s a n =
     (fst n \<ge> 0 \<and> fst n < gridSize s \<and> snd n \<ge> 0 \<and> snd n < gridSize s \<and>
      cell (sim_grid s) (fst n) (snd n) \<noteq> Some CELL_WALL \<and>
      \<not> occupiedByOther (agents s) a (fst n) (snd n))"

definition moveAgentTemporarilyForced :: "nat \<Rightarrow> sim \<Rightarrow> bool \<times> sim" where
  "moveAgentTemporarilyForced i s =
     (let a = agents s ! i in
      if \<not> at_target a then (False, s)
      else
        let neighbors = getNeighbors (agent_x a) (agent_y a) (currentTopology s) (gridSize s);
            availablePositions =
              map (\<lambda>n. (n, \<bar>fst n - num (targetX a)\<bar> + \<bar>snd n - num (targetY a)\<bar>))
                (filter (freeNeighbour s a) neighbors)
        in case sort_key (\<lambda>e. - snd e) availablePositions of
             [] \<Rightarrow> (False, s)
           | tempPos # _ \<Rightarrow>
               let originalTarget = (num (targetX a), num (targetY a));
                   s1 = moveAgentTo i (fst tempPos) s
               in (True, upd_agent i (\<lambda>a. a\<lparr> path := [agent_pos a, originalTarget] \<rparr>) s1))"

text \<open>
  \<open>tryAgentSwapping\<close>: the first pair of stuck agents, in the order of the two loops,
  that stand next to each other and are nearer to their targets when exchanged.
\<close>

definition swapHelps :: "agent \<Rightarrow> agent \<Rightarrow> bool" where
  "swapHelps agent1 agent2 =
     (manhattan (agent_x agent1) (agent_y agent1) (agent_x agent2) (agent_y agent2) = 1 \<and>
      (let distA1 = \<bar>agent_x agent1 - num (targetX agent1)\<bar> + \<bar>agent_y agent1 - num (targetY agent1)\<bar>;
           distB1 = \<bar>agent_x agent2 - num (targetX agent2)\<bar> + \<bar>agent_y agent2 - num (targetY agent2)\<bar>;
           distA2 = \<bar>agent_x agent2 - num (targetX agent1)\<bar> + \<bar>agent_y agent2 - num (targetY agent1)\<bar>;
           distB2 = \<bar>agent_x agent1 - num (targetX agent2)\<bar> + \<bar>agent_y agent1 - num (targetY agent2)\<bar>
       in distA2 + distB2 < distA1 + distB1))"

definition indexPairs :: "nat list \<Rightarrow> (nat \<times> nat) list" where
  "indexPairs xs =
     concat (map (\<lambda>i. map (\<lambda>j. (xs ! i, xs ! j)) [i + 1..<length xs]) [0..<length xs - 1])"

definition swapAgents :: "nat \<Rightarrow> nat \<Rightarrow> sim \<Rightarrow> sim" where
  "swapAgents i j s =
     (let agent1 = agents s ! i; agent2 = agents s ! j;
          g1 = grid_set (sim_grid s) (agent_x agent1) (agent_y agent1) CELL_EMPTY;
          g2 = grid_set g1 (agent_x agent2) (agent_y agent2) CELL_EMPTY;
          s1 = upd_agent i (\<lambda>a. a\<lparr> agent_x := agent_x agent2, agent_y := agent_y agent2 \<rparr>) s;
          s2 = upd_agent j (\<lambda>a. a\<lparr> agent_x := agent_x agent1, agent_y := agent_y agent1 \<rparr>) s1;
          g3 = grid_set g2 (agent_x agent2) (agent_y agent2) CELL_AGENT;
          g4 = grid_set g3 (agent_x agent1) (agent_y agent1) CELL_AGENT
      in s2\<lparr> sim_grid := g4 \<rparr>)"

definition tryAgentSwapping :: "nat list \<Rightarrow> sim \<Rightarrow> bool \<times> sim" where
  "tryAgentSwapping stuckAgents s =
     (case find (\<lambda>(i, j). swapHelps (agents s ! i) (agents s ! j)) (indexPairs stuckAgents) of
        None \<Rightarrow> (False, s)
      | Some (i, j) \<Rightarrow> (True, calculatePath j (calculatePath i (swapAgents i j s))))"

text \<open>
  \<open>tryRandomMoves\<close>: the stuck agents in turn; the first one with a free cell among its
  shuffled neighbours moves there, loses its path and plans again.
\<close>

fun tryRandomMoves :: "env \<Rightarrow> nat list \<Rightarrow> sim \<Rightarrow> bool \<times> sim" where
  "tryRandomMoves e [] s = (False, s)"
| "tryRandomMoves e (i # stuckAgents) s =
     (let a = agents s ! i;
          neighbors = shuffle e (randomCalls s)
                        (getNeighbors (agent_x a) (agent_y a) (currentTopology s) (gridSize s));
          s1 = s\<lparr> randomCalls := randomCalls s + 1 \<rparr>
      in case find (freeNeighbour s1 a) neighbors of
           None \<Rightarrow> tryRandomMoves e stuckAgents s1
         | Some n \<Rightarrow>
             (True, calculatePath i (upd_agent i (\<lambda>a. a\<lparr> path := [] \<rparr>) (moveAgentTo i n s1))))"

subsection \<open>tryMoveBlockingAgents\<close>

definition agentsAtTargets :: "sim \<Rightarrow> nat list" where
  "agentsAtTargets s = filter (\<lambda>i. at_target (agents s ! i)) [0..<length (agents s)]"

definition agentsNotAtTargets :: "sim \<Rightarrow> nat list" where
  "agentsNotAtTargets s = filter (\<lambda>i. \<not> at_target (agents s ! i)) [0..<length (agents s)]"

text \<open>Whether the agent on its target stands in the way of the blocked agent's path.\<close>

definition isBlocker :: "sim \<Rightarrow> agent \<Rightarrow> agent \<Rightarrow> bool" where
  "isBlocker s blockedAgent targetAgent =
     (agent_pos targetAgent = path blockedAgent ! 1 \<or>
      agent_pos targetAgent \<in> set (path blockedAgent) \<or>
      (currentTopology s = Moore \<and>
       list_ex (\<lambda>p. let dx = \<bar>fst p - agent_x targetAgent\<bar>; dy = \<bar>snd p - agent_y targetAgent\<bar>
                    in dx \<le> 1 \<and> dy \<le> 1 \<and> \<not> (dx = 0 \<and> dy = 0))
         (path blockedAgent)))"

text \<open>
  Forced moves for a list of candidates, skipping the ids tried before; the result
  carries the ids tried so far.
\<close>

fun forceFirst :: "nat list \<Rightarrow> nat list \<Rightarrow> sim \<Rightarrow> (bool \<times> nat list) \<times> sim" where
  "forceFirst [] tried s = ((False, tried), s)"
| "forceFirst (i # is) tried s =
     (case moveAgentTemporarilyForced i s of
        (True, s1) \<Rightarrow> ((True, agent_id (agents s ! i) # tried), s1)
      | (False, s1) \<Rightarrow> forceFirst is (agent_id (agents s ! i) # tried) s1)"

fun forceBlockers :: "nat list \<Rightarrow> nat list \<Rightarrow> nat list \<Rightarrow> sim \<Rightarrow> (bool \<times> nat list) \<times> sim" where
  "forceBlockers atTargets [] tried s = ((False, tried), s)"
| "forceBlockers atTargets (b # blocked) tried s =
     (if length (path (agents s ! b)) \<le> 1 then forceBlockers atTargets blocked tried s
      else
        let blockingAgents =
              filter (\<lambda>t. agent_id (agents s ! t) \<notin> set tried \<and>
                           isBlocker s (agents s ! b) (agents s ! t)) atTargets
        in case forceFirst blockingAgents tried s of
             ((True, tried1), s1) \<Rightarrow> ((True, tried1), s1)
           | ((False, tried1), s1) \<Rightarrow> forceBlockers atTargets blocked tried1 s1)"

text \<open>The last resort: the agents on their targets, highest id first, tried once each.\<close>

fun forceUntried :: "nat list \<Rightarrow> nat list \<Rightarrow> sim \<Rightarrow> bool \<times> sim" where
  "forceUntried [] tried s = (False, s)"
| "forceUntried (t # ts) tried s =
     (if agent_id (agents s ! t) \<in> set tried then forceUntried ts tried s
      else
        (case moveAgentTemporarilyForced t s of
           (True, s1) \<Rightarrow> (True, s1)
         | (False, s1) \<Rightarrow> forceUntried ts (agent_id (agents s ! t) # tried) s1))"

definition tryMoveBlockingAgents :: "sim \<Rightarrow> bool \<times> sim" where
  "tryMoveBlockingAgents s =
     (let atTargets = agentsAtTargets s;
          notAtTargets = agentsNotAtTargets s
      in case forceBlockers atTargets notAtTargets [] s of
           ((True, tried), s1) \<Rightarrow> (True, fold calculatePath notAtTargets s1)
         | ((False, tried), s1) \<Rightarrow>
             let sortedAgentsAtTargets = sort_key (\<lambda>t. - int (agent_id (agents s1 ! t))) atTargets
             in (case forceUntried sortedAgentsAtTargets tried s1 of
                   (True, s2) \<Rightarrow> (True, fold calculatePath notAtTargets s2)
                 | (False, s2) \<Rightarrow> (False, s2)))"

subsection \<open>Grids for re-planning\<close>

text \<open>
  The grid of the walls, with the agents that sit on their targets as further walls;
  the agents whose ids are in \<open>except\<close> are left out.
\<close>

definition sitterGrid :: "sim \<Rightarrow> nat list \<Rightarrow> grid" where
  "sitterGrid s except =
     mapGrid (\<lambda>x y c.
        if c = CELL_WALL then CELL_WALL
        else if list_ex (\<lambda>b. agent_id b \<notin> set except \<and> agent_x b = x \<and> agent_y b = y \<and> at_target b)
                  (agents s)
        then CELL_WALL else CELL_EMPTY) (sim_grid s)"

subsection \<open>findTwoPhasePathThroughAgents\<close>

definition gridCells :: "sim \<Rightarrow> pos list" where
  "gridCells s = map (\<lambda>(y, x). (x, y)) (List.product [0..gridSize s - 1] [0..gridSize s - 1])"

definition potentialIntermediates :: "sim \<Rightarrow> agent \<Rightarrow> (pos \<times> rat) list" where
  "potentialIntermediates s a =
     List.map_filter (\<lambda>(x, y).
        if cell (sim_grid s) x y \<noteq> Some CELL_EMPTY then None
        else if list_ex (\<lambda>b. agent_id b \<noteq> agent_id a \<and> at_target b \<and>
                              manhattan x y (agent_x b) (agent_y b) \<le> 2) (agents s)
        then None
        else Some ((x, y),
               of_int (manhattan x y (agent_x a) (agent_y a)) +
               of_int (\<bar>x - num (targetX a)\<bar> + \<bar>y - num (targetY a)\<bar>) * (3 / 2)))
       (gridCells s)"

fun tryIntermediates :: "nat \<Rightarrow> pos list \<Rightarrow> sim \<Rightarrow> bool option \<times> sim" where
  "tryIntermediates i [] s = (Some False, s)"
| "tryIntermediates i (intermediate # rest) s =
     (let a = agents s ! i in
      case plan s (sitterGrid s [agent_id a]) (agent_pos a) (Some intermediate) of
        None \<Rightarrow> (None, s)
      | Some pathToIntermediate \<Rightarrow>
          if length pathToIntermediate > 1
          then (case plan s (wallsOnly (sim_grid s)) intermediate (agent_goal a) of
                  None \<Rightarrow> (None, s)
                | Some pathToTarget \<Rightarrow>
                    if length pathToTarget > 1
                    then (Some True, upd_agent i (\<lambda>a. a\<lparr> path := pathToIntermediate \<rparr>) s)
                    else tryIntermediates i rest s)
          else tryIntermediates i rest s)"

definition findTwoPhasePathThroughAgents :: "nat \<Rightarrow> sim \<Rightarrow> bool option \<times> sim" where
  "findTwoPhasePathThroughAgents i s =
     tryIntermediates i
       (take 5 (map fst (sort_key snd (potentialIntermediates s (agents s ! i))))) s"


subsection \<open>tryTargetReassignment\<close>

text \<open>
  The strategies of the function try candidates in a fixed order and return at the
  first one that works; a candidate that does not work leaves the state as it is.
\<close>

fun firstSuccess :: "('a \<Rightarrow> sim \<Rightarrow> bool option \<times> sim) \<Rightarrow> 'a list \<Rightarrow> sim \<Rightarrow> bool option \<times> sim" where
  "firstSuccess f [] s = (Some False, s)"
| "firstSuccess f (c # cs) s =
     (case f c s of
        (None, s1) \<Rightarrow> (None, s1)
      | (Some True, s1) \<Rightarrow> (Some True, s1)
      | (Some False, s1) \<Rightarrow> firstSuccess f cs s1)"

definition emptyTargets :: "sim \<Rightarrow> pos list" where
  "emptyTargets s =
     filter (\<lambda>p. \<not> list_ex (\<lambda>a. agent_pos a = p) (agents s)) (targetPositions s)"

definition assignTarget :: "nat \<Rightarrow> pos \<Rightarrow> pos list \<Rightarrow> sim \<Rightarrow> sim" where
  "assignTarget i t pth s =
     upd_agent i (\<lambda>a. a\<lparr> targetX := Some (fst t), targetY := Some (snd t), path := pth \<rparr>) s"

text \<open>
  Distributed mode: the agents off their targets see two cells farther for the
  reassignment, and a timer will set the old ranges again.
\<close>

definition widenVisibility :: "nat list \<Rightarrow> sim \<Rightarrow> sim" where
  "widenVisibility notAt s =
     (fold (\<lambda>i. upd_agent i (\<lambda>a. a\<lparr> visibilityRange := map_option (\<lambda>v. v + 2) (visibilityRange a) \<rparr>))
        notAt s)
     \<lparr> timers := timers s @
          map (\<lambda>i. RestoreVisibility (agent_id (agents s ! i)) (visibilityRange (agents s ! i))) notAt \<rparr>"

text \<open>For an agent on its target: the agents off target whose path runs over its cell.\<close>

definition blockedBy :: "sim \<Rightarrow> nat list \<Rightarrow> nat \<Rightarrow> nat list" where
  "blockedBy s notAt t =
     filter (\<lambda>b. (currentDecisionMode s = Distributed \<longrightarrow>
                    \<not> beyond (visibilityRange (agents s ! b))
                        (manhattan (agent_x (agents s ! t)) (agent_y (agents s ! t))
                                   (agent_x (agents s ! b)) (agent_y (agents s ! b)))) \<and>
                 agent_pos (agents s ! t) \<in> set (path (agents s ! b)))
       notAt"

definition blockingAgentsAtTargets :: "sim \<Rightarrow> nat list \<Rightarrow> nat list \<Rightarrow> (nat \<times> nat list) list" where
  "blockingAgentsAtTargets s atT notAt =
     sort_key (\<lambda>info. - int (length (snd info)))
       (filter (\<lambda>info. snd info \<noteq> []) (map (\<lambda>t. (t, blockedBy s notAt t)) atT))"

text \<open>The distributed strategy: an agent off target takes a free target it can see.\<close>

definition visibleGrid :: "sim \<Rightarrow> agent \<Rightarrow> pos \<Rightarrow> grid" where
  "visibleGrid s a t =
     fold (\<lambda>b g. if agent_id b \<noteq> agent_id a \<and>
                     \<not> beyond (visibilityRange a)
                          (manhattan (agent_x b) (agent_y b) (agent_x a) (agent_y a))
                  then grid_set g (agent_x b) (agent_y b) CELL_WALL
                  else g)
       (agents s) (visibilityMask a (visibilityRange a) (Some t) (wallsOnly (sim_grid s)))"

definition visibleAttempts :: "sim \<Rightarrow> nat list \<Rightarrow> pos list \<Rightarrow> (nat \<times> pos) list" where
  "visibleAttempts s notAt empties =
     (let attempts =
            sort_key (\<lambda>att. length (snd att))
              (filter (\<lambda>att. snd att \<noteq> [])
                 (map (\<lambda>i. (i, filter (\<lambda>t. \<not> beyond (visibilityRange (agents s ! i))
                                             (manhattan (fst t) (snd t)
                                                (agent_x (agents s ! i)) (agent_y (agents s ! i))))
                                 empties))
                    notAt))
      in concat (map (\<lambda>(i, ts).
                   map (\<lambda>t. (i, t))
                     (sort_key (\<lambda>t. manhattan (fst t) (snd t)
                                       (agent_x (agents s ! i)) (agent_y (agents s ! i))) ts))
                 attempts))"

definition tryVisibleTarget :: "nat \<times> pos \<Rightarrow> sim \<Rightarrow> bool option \<times> sim" where
  "tryVisibleTarget c s =
     (case c of (i, t) \<Rightarrow>
        let a = agents s ! i in
        case plan s (visibleGrid s a t) (agent_pos a) (Some t) of
          None \<Rightarrow> (None, s)
        | Some pth \<Rightarrow> if length pth > 1 then (Some True, assignTarget i t pth s) else (Some False, s))"

text \<open>
  The first strategy, chain movements. The test grid loses the cell of the agent to
  move, then the cell of every blocking agent that could take over its target.
\<close>

fun anyReaches :: "sim \<Rightarrow> grid \<Rightarrow> nat list \<Rightarrow> bool option" where
  "anyReaches s testGrid [] = Some False"
| "anyReaches s testGrid (b # bs) =
     (case plan s testGrid (agent_pos (agents s ! b)) (agent_goal (agents s ! b)) of
        None \<Rightarrow> None
      | Some blockedPath \<Rightarrow> if length blockedPath > 1 then Some True else anyReaches s testGrid bs)"

fun chainHelps :: "sim \<Rightarrow> nat \<Rightarrow> (nat \<times> nat list) list \<Rightarrow> grid \<Rightarrow> (bool \<times> grid) option" where
  "chainHelps s i [] testGrid = Some (False, testGrid)"
| "chainHelps s i (info # infos) testGrid =
     (let blockingAgent = agents s ! fst info in
      if agent_id blockingAgent = agent_id (agents s ! i) then chainHelps s i infos testGrid
      else
        (case plan s testGrid (agent_pos blockingAgent) (agent_goal (agents s ! i)) of
           None \<Rightarrow> None
         | Some blockingPath \<Rightarrow>
             if length blockingPath > 1
             then
               let testGrid1 = grid_set testGrid (agent_x blockingAgent) (agent_y blockingAgent) CELL_EMPTY
               in (case anyReaches s testGrid1 (snd info) of
                     None \<Rightarrow> None
                   | Some True \<Rightarrow> Some (True, testGrid1)
                   | Some False \<Rightarrow> chainHelps s i infos testGrid1)
             else chainHelps s i infos testGrid))"

definition recalcOthers :: "nat \<Rightarrow> sim \<Rightarrow> sim" where
  "recalcOthers i s =
     fold (\<lambda>k s1. if agent_id (agents s1 ! k) \<noteq> agent_id (agents s1 ! i) then calculatePath k s1 else s1)
       [0..<length (agents s)] s"

definition tryChain :: "(nat \<times> nat list) list \<Rightarrow> nat list \<Rightarrow> nat \<times> pos \<Rightarrow> sim \<Rightarrow> bool option \<times> sim" where
  "tryChain blocking notAt c s =
     (case c of (i, t) \<Rightarrow>
        let a = agents s ! i in
        if Some t = agent_goal a then (Some False, s)
        else
          (case plan s (sitterGrid s [agent_id a]) (agent_pos a) (Some t) of
             None \<Rightarrow> (None, s)
           | Some pth \<Rightarrow>
               if length pth > 1
               then
                 (case chainHelps s i blocking (grid_set (sim_grid s) (agent_x a) (agent_y a) CELL_EMPTY) of
                    None \<Rightarrow> (None, s)
                  | Some (helps, testGrid) \<Rightarrow>
                      (case (if helps then Some True else anyReaches s testGrid notAt) of
                         None \<Rightarrow> (None, s)
                       | Some True \<Rightarrow> (Some True, recalcOthers i (assignTarget i t pth s))
                       | Some False \<Rightarrow> (Some False, s)))
               else (Some False, s)))"

text \<open>The second strategy: a blocking agent takes a free target, nearest first.\<close>

definition tryDirect :: "(nat \<times> nat list) \<times> pos \<Rightarrow> sim \<Rightarrow> bool option \<times> sim" where
  "tryDirect c s =
     (case c of ((i, blocking), t) \<Rightarrow>
        let a = agents s ! i in
        if Some t = agent_goal a then (Some False, s)
        else
          (case plan s (sitterGrid s [agent_id a]) (agent_pos a) (Some t) of
             None \<Rightarrow> (None, s)
           | Some pth \<Rightarrow>
               if length pth > 1
               then (Some True, fold calculatePath blocking (assignTarget i t pth s))
               else (Some False, s)))"

text \<open>The third strategy: an agent off target takes a free target.\<close>

definition tryOtherTarget :: "nat \<times> pos \<Rightarrow> sim \<Rightarrow> bool option \<times> sim" where
  "tryOtherTarget c s =
     (case c of (i, t) \<Rightarrow>
        let a = agents s ! i in
        if Some t = agent_goal a then (Some False, s)
        else
          (case plan s (sitterGrid s [agent_id a]) (agent_pos a) (Some t) of
             None \<Rightarrow> (None, s)
           | Some pth \<Rightarrow>
               if length pth > 1 then (Some True, assignTarget i t pth s) else (Some False, s)))"

text \<open>The fourth strategy: two agents exchange their targets.\<close>

definition trySwapTargets :: "nat \<times> nat \<Rightarrow> sim \<Rightarrow> bool option \<times> sim" where
  "trySwapTargets c s =
     (case c of (i, j) \<Rightarrow>
        let a1 = agents s ! i; a2 = agents s ! j;
            g = sitterGrid s [agent_id a1, agent_id a2]
        in case plan s g (agent_pos a1) (agent_goal a2) of
             None \<Rightarrow> (None, s)
           | Some path1 \<Rightarrow>
               (case plan s g (agent_pos a2) (agent_goal a1) of
                  None \<Rightarrow> (None, s)
                | Some path2 \<Rightarrow>
                    if length path1 > 1 \<and> length path2 > 1
                    then (Some True,
                          upd_agent j (\<lambda>a. a\<lparr> targetX := targetX a1, targetY := targetY a1, path := path2 \<rparr>)
                            (upd_agent i (\<lambda>a. a\<lparr> targetX := targetX a2, targetY := targetY a2, path := path1 \<rparr>) s))
                    else (Some False, s)))"

text \<open>Running a strategy when the one before found nothing.\<close>

definition orElse :: "bool option \<times> sim \<Rightarrow> (sim \<Rightarrow> bool option \<times> sim) \<Rightarrow> bool option \<times> sim" where
  "orElse r f = (case r of (Some False, s) \<Rightarrow> f s | _ \<Rightarrow> r)"

definition tryTargetReassignment :: "sim \<Rightarrow> bool option \<times> sim" where
  "tryTargetReassignment s0 =
     (let notAt = agentsNotAtTargets s0;
          atT = agentsAtTargets s0;
          empties = emptyTargets s0;
          s = (if currentDecisionMode s0 = Distributed then widenVisibility notAt s0 else s0);
          blocking = blockingAgentsAtTargets s atT notAt;
          r0 = (if currentDecisionMode s = Distributed
                then firstSuccess tryVisibleTarget (visibleAttempts s notAt empties) s
                else (Some False, s));
          r1 = orElse r0 (\<lambda>s.
                 if atT \<noteq> [] \<and> empties \<noteq> []
                 then firstSuccess (tryChain blocking notAt)
                        (List.product
                           (map fst blocking @
                            filter (\<lambda>t. \<not> list_ex (\<lambda>info. agent_id (agents s ! fst info) = agent_id (agents s ! t))
                                              blocking) atT)
                           empties) s
                 else (Some False, s));
          r2 = orElse r1 (\<lambda>s.
                 if blocking \<noteq> [] \<and> empties \<noteq> []
                 then firstSuccess tryDirect
                        (concat (map (\<lambda>info.
                           map (\<lambda>t. (info, t))
                             (sort_key (\<lambda>t. manhattan (agent_x (agents s ! fst info)) (agent_y (agents s ! fst info))
                                               (fst t) (snd t)) empties))
                           blocking)) s
                 else (Some False, s));
          r3 = orElse r2 (firstSuccess tryOtherTarget (List.product notAt empties));
          r4 = orElse r3 (\<lambda>s.
                 if empties = []
                 then orElse (firstSuccess trySwapTargets (List.product notAt atT) s)
                        (firstSuccess trySwapTargets (indexPairs notAt))
                 else (Some False, s))
      in r4)"


subsection \<open>Starting and pausing\<close>

definition pauseSimulation :: "sim \<Rightarrow> sim" where
  "pauseSimulation s = s\<lparr> isSimulationRunning := False, simulationInterval := False \<rparr>"

text \<open>
  \<open>assignTargets\<close>: nothing happens with fewer targets than agents; otherwise every
  agent gets the target of its pair and plans its path. The assignment runs inside
  \<open>try\<close>.
\<close>

definition applyAssignment :: "assignment \<Rightarrow> sim \<Rightarrow> sim" where
  "applyAssignment asg s =
     (let t = targetPositions s ! target asg
      in calculatePath (agent asg)
           (upd_agent (agent asg) (\<lambda>a. a\<lparr> targetX := Some (fst t), targetY := Some (snd t) \<rparr>) s))"

definition assignTargets :: "sim \<Rightarrow> sim" where
  "assignTargets s =
     (if length (targetPositions s) < length (agents s) then s
      else
        (case findOptimalAssignment (map agent_pos (agents s)) (targetPositions s) (sim_grid s) of
           None \<Rightarrow> s
         | Some assignments \<Rightarrow> fold applyAssignment assignments s))"

text \<open>
  \<open>startSimulation\<close>. \<open>setInterval\<close> arms the tick timer, which is the flag
  \<open>simulationInterval\<close>.
\<close>

definition startSimulation :: "sim \<Rightarrow> sim" where
  "startSimulation s =
     (if isSimulationRunning s then s
      else if length (agents s) = 0 then s
      else if length (targetPositions s) = 0 then s
      else
        let s1 = s\<lparr> failedDeadlockResolutionAttempts := 0, lastDeadlockSignature := [],
                    repeatedDeadlockCount := 0 \<rparr>;
            s2 = (if sequentialMovementMode s1
                  then s1\<lparr> sequentialMovesRemaining := int (length (agents s1)) \<rparr> else s1);
            s3 = s2\<lparr> isSimulationRunning := True \<rparr>;
            s4 = assignTargets s3
        in s4\<lparr> simulationInterval := True \<rparr>)"


subsection \<open>The tick: tracking and deadlocks\<close>

datatype outcome = Proceed | Finished | Thrown

text \<open>\<open>generateDeadlockSignature\<close>; the strings are equal exactly when these lists are.\<close>

definition generateDeadlockSignature :: "sim \<Rightarrow> nat list \<Rightarrow> (nat \<times> (pos \<times> pos option) option) list" where
  "generateDeadlockSignature s deadlockedAgentIds =
     map (\<lambda>i. (i, case find_agent (agents s) i of
                     None \<Rightarrow> None
                   | Some k \<Rightarrow> Some (agent_pos (agents s ! k), agent_goal (agents s ! k))))
       (sort deadlockedAgentIds)"

text \<open>
  Sequential mode keeps a detected agent only if it is not merely waiting for another
  agent and the pathfinder finds no way on the grid of the walls (seen with one and a
  half times the visibility range in distributed mode).
\<close>

definition extendedMask :: "agent \<Rightarrow> grid \<Rightarrow> grid" where
  "extendedMask a g =
     mapGrid (\<lambda>x y c.
        if (case visibilityRange a of None \<Rightarrow> False
            | Some v \<Rightarrow> 2 * manhattan x y (agent_x a) (agent_y a) > 3 * v) \<and>
           agent_goal a \<noteq> Some (x, y)
        then CELL_WALL else c) g"

fun trueDeadlocks :: "sim \<Rightarrow> nat list \<Rightarrow> nat list option" where
  "trueDeadlocks s [] = Some []"
| "trueDeadlocks s (agentId # ids) =
     (case find_agent (agents s) agentId of
        None \<Rightarrow> trueDeadlocks s ids
      | Some k \<Rightarrow>
          let a = agents s ! k in
          if length (path a) > 1 \<and> occupiedByOther (agents s) a (fst (path a ! 1)) (snd (path a ! 1))
          then trueDeadlocks s ids
          else
            let clearedGrid = wallsOnly (sim_grid s);
                clearedGrid1 = (if currentDecisionMode s = Distributed
                                then extendedMask a clearedGrid else clearedGrid)
            in (case plan s clearedGrid1 (agent_pos a) (agent_goal a) of
                  None \<Rightarrow> None
                | Some pth \<Rightarrow>
                    (case trueDeadlocks s ids of
                       None \<Rightarrow> None
                     | Some rest \<Rightarrow> Some (if length pth \<le> 1 then agentId # rest else rest))))"

text \<open>
  The test for a repeated deadlock (sequential mode with A* or BFS): the third time
  the same signature is seen, the simulation is paused and a restart is scheduled.
  \<open>Proceed\<close> means that the tick goes on to the resolution.
\<close>

definition noteDeadlock :: "nat list \<Rightarrow> sim \<Rightarrow> outcome \<times> sim" where
  "noteDeadlock deadlockedAgents s1 =
     (if sequentialMovementMode s1 \<and>
         (currentAlgorithm s1 = AlgAStar \<or> currentAlgorithm s1 = AlgBFS)
      then
        let deadlockSignature = generateDeadlockSignature s1 deadlockedAgents in
        if deadlockSignature = lastDeadlockSignature s1
        then
          let s2 = s1\<lparr> repeatedDeadlockCount := repeatedDeadlockCount s1 + 1 \<rparr> in
          if repeatedDeadlockCount s2 \<ge> 3
          then (Finished,
                (pauseSimulation s2)\<lparr> repeatedDeadlockCount := 0, lastDeadlockSignature := [],
                                       timers := timers s2 @ [RestartSimulation] \<rparr>)
          else (Proceed, s2)
        else (Proceed, s1\<lparr> repeatedDeadlockCount := 1, lastDeadlockSignature := deadlockSignature \<rparr>)
      else (Proceed, s1))"

text \<open>\<open>deadlockHandler.resolveDeadlocks(deadlockedAgents)\<close> on the handler of the state.\<close>

definition resolve :: "nat list \<Rightarrow> sim \<Rightarrow> outcome \<times> sim" where
  "resolve deadlockedAgents s =
     (case resolveDeadlocks (handlerView s) deadlockedAgents of
        None \<Rightarrow> (Thrown, s)
      | Some h \<Rightarrow> (Proceed, handlerStore h s))"

text \<open>The detected agents, filtered in sequential mode.\<close>

definition detected :: "sim \<Rightarrow> nat list option" where
  "detected s1 =
     (let deadlockedAgents = detectDeadlocks (handlerView s1) in
      if sequentialMovementMode s1 \<and> deadlockedAgents \<noteq> [] then trueDeadlocks s1 deadlockedAgents
      else Some deadlockedAgents)"

definition deadlockPhase :: "sim \<Rightarrow> outcome \<times> sim" where
  "deadlockPhase s0 =
     (let s1 = handlerStore (updatePositionTracking (handlerView s0)) s0 in
      if agentsNotAtTargets s1 = [] then (Finished, pauseSimulation s1)
      else
        (case detected s1 of
           None \<Rightarrow> (Thrown, s1)
         | Some deadlockedAgents \<Rightarrow>
             if deadlockedAgents \<noteq> []
             then (case noteDeadlock deadlockedAgents s1 of
                     (Proceed, s2) \<Rightarrow> resolve deadlockedAgents s2
                   | r \<Rightarrow> r)
             else (Proceed, s1\<lparr> lastDeadlockSignature := [], repeatedDeadlockCount := 0 \<rparr>)))"


subsection \<open>The tick: movement\<close>

text \<open>
  The priority order: agents off their targets first, then by Manhattan distance to
  the target; the sort is stable. The list holds indices into the agent array.
\<close>

definition targetDistance :: "agent \<Rightarrow> int" where
  "targetDistance a = \<bar>agent_x a - num (targetX a)\<bar> + \<bar>agent_y a - num (targetY a)\<bar>"

definition prioritizedAgents :: "sim \<Rightarrow> nat list" where
  "prioritizedAgents s =
     sort_key (\<lambda>i. (at_target (agents s ! i), targetDistance (agents s ! i))) [0..<length (agents s)]"

text \<open>One draw of \<open>Math.random()\<close>.\<close>

definition draw :: "env \<Rightarrow> sim \<Rightarrow> rat \<times> sim" where
  "draw e s = (random e (randomCalls s), s\<lparr> randomCalls := randomCalls s + 1 \<rparr>)"

text \<open>Distributed and sequential: the paths are planned again before the moves.\<close>

definition refreshPath :: "env \<Rightarrow> nat \<Rightarrow> sim \<Rightarrow> sim" where
  "refreshPath e i s =
     (if \<not> at_target (agents s ! i)
      then (if length (path (agents s ! i)) \<le> 1 then calculatePath i s
            else (case draw e s of (r, s1) \<Rightarrow> if r < 2 / 10 then calculatePath i s1 else s1))
      else s)"

text \<open>
  The agent on the next step that the moving agent takes into account: any other
  agent in centralized mode, an agent within the visibility range in distributed mode.
\<close>

definition occupyingAgent :: "sim \<Rightarrow> agent \<Rightarrow> pos \<Rightarrow> agent option" where
  "occupyingAgent s a nextStep =
     (if currentDecisionMode s = Distributed
      then find (\<lambda>b. agent_id b \<noteq> agent_id a \<and> agent_pos b = nextStep \<and>
                     \<not> beyond (visibilityRange a)
                          (manhattan (agent_x b) (agent_y b) (agent_x a) (agent_y a)))
             (agents s)
      else find (\<lambda>b. agent_id b \<noteq> agent_id a \<and> agent_pos b = nextStep) (agents s))"

text \<open>The step of agent \<open>i\<close> to the free next cell of its path.\<close>

definition commitStep :: "env \<Rightarrow> nat \<Rightarrow> sim \<Rightarrow> sim" where
  "commitStep e i s =
     (let nextStep = path (agents s ! i) ! 1;
          s1 = (if sequentialMovementMode s
                then (let s' = s\<lparr> sequentialMovesRemaining := sequentialMovesRemaining s - 1 \<rparr>
                      in if sequentialMovesRemaining s' \<le> 0
                         then s'\<lparr> sequentialMovesRemaining := int (length (agents s')) \<rparr> else s')
                else s);
          s2 = moveAgentTo i nextStep s1;
          s3 = upd_agent i (\<lambda>a. a\<lparr> path := tl (path a) \<rparr>) s2;
          s4 = s3\<lparr> totalMoves := totalMoves s3 + 1 \<rparr>;
          s5 = (if at_target (agents s4 ! i)
                then upd_agent i (\<lambda>a. a\<lparr> path := [agent_pos a] \<rparr>) s4 else s4);
          a5 = agents s5 ! i
      in if currentDecisionMode s5 = Distributed \<and>
            Some (agent_x a5) \<noteq> targetX a5 \<and> Some (agent_y a5) \<noteq> targetY a5
         then (if \<not> sequentialMovementMode s5 then calculatePath i s5
               else (case draw e s5 of (r, s6) \<Rightarrow> if r < 1 / 2 then calculatePath i s6 else s6))
         else s5)"

text \<open>
  The turn of an agent that is off its target: the body of the move loop after the
  two tests at its head. The result says whether the agent has moved.
\<close>

definition agentTurn :: "env \<Rightarrow> nat \<Rightarrow> sim \<Rightarrow> bool \<times> sim" where
  "agentTurn e i s =
     (let a = agents s ! i;
          s1 = (if isRetreating a \<and> length (path a) \<le> 1
                then upd_agent i (\<lambda>a. a\<lparr> isRetreating := False \<rparr>) s else s)
      in if length (path a) \<le> 1
         then (False, if targetX a \<noteq> None \<and> targetY a \<noteq> None then calculatePath i s1 else s1)
         else
           (case occupyingAgent s1 a (path a ! 1) of
              None \<Rightarrow> (True, commitStep e i s1)
            | Some occ \<Rightarrow>
                (False,
                 if at_target occ then calculatePath i s1
                 else if (case map_of (waitingTime (deadlockHandler s1)) (agent_id a) of
                            None \<Rightarrow> False | Some w \<Rightarrow> w > 2)
                 then calculatePath i s1
                 else s1)))"

text \<open>
  The loop over the prioritized agents; the state carries \<open>agentsMovedCount\<close>
  (\<open>agentsMoved\<close> is \<open>agentsMovedCount > 0\<close>). An agent on its target is skipped, and
  in sequential mode the loop ends after the first move.
\<close>

fun moveLoop :: "env \<Rightarrow> nat list \<Rightarrow> nat \<Rightarrow> sim \<Rightarrow> nat \<times> sim" where
  "moveLoop e [] agentsMovedCount s = (agentsMovedCount, s)"
| "moveLoop e (i # rest) agentsMovedCount s =
     (if at_target (agents s ! i)
      then moveLoop e rest agentsMovedCount (upd_agent i (\<lambda>a. a\<lparr> path := [agent_pos a] \<rparr>) s)
      else if sequentialMovementMode s \<and> agentsMovedCount > 0 then (agentsMovedCount, s)
      else
        (case agentTurn e i s of
           (True, s1) \<Rightarrow> moveLoop e rest (agentsMovedCount + 1) s1
         | (False, s1) \<Rightarrow> moveLoop e rest agentsMovedCount s1))"

definition movePhase :: "env \<Rightarrow> sim \<Rightarrow> nat \<times> sim" where
  "movePhase e s =
     (let prioritized = prioritizedAgents s;
          s1 = (if currentDecisionMode s = Distributed \<and> sequentialMovementMode s
                then fold (refreshPath e) prioritized s else s)
      in moveLoop e prioritized 0 s1)"

subsection \<open>The tick: a step without movement\<close>

definition stuckAgents :: "sim \<Rightarrow> nat list" where
  "stuckAgents s =
     filter (\<lambda>i. \<not> at_target (agents s ! i) \<and> length (path (agents s ! i)) \<le> 1)
       [0..<length (agents s)]"

text \<open>Distributed and sequential: every agent off target sees farther and plans again.\<close>

definition widenAndPlan :: "nat \<Rightarrow> sim \<Rightarrow> sim" where
  "widenAndPlan i s =
     (if \<not> at_target (agents s ! i)
      then
        let originalVisibility = visibilityRange (agents s ! i);
            s1 = upd_agent i (\<lambda>a. a\<lparr> visibilityRange := map_option (\<lambda>v. v + 2) (visibilityRange a) \<rparr>) s;
            s2 = calculatePath i s1
        in s2\<lparr> timers := timers s2 @ [RestoreVisibility (agent_id (agents s ! i)) originalVisibility] \<rparr>
      else s)"

text \<open>
  The forced moves for the stuck agents: the agents on their targets within two cells
  of the stuck agent's target, until one of them moves.
\<close>

fun forceNear :: "nat list \<Rightarrow> sim \<Rightarrow> bool \<times> sim" where
  "forceNear [] s = (False, s)"
| "forceNear (b # bs) s =
     (case moveAgentTemporarilyForced b s of
        (True, s1) \<Rightarrow> (True, s1)
      | (False, s1) \<Rightarrow> forceNear bs s1)"

definition blockersNear :: "sim \<Rightarrow> nat \<Rightarrow> nat list" where
  "blockersNear s k =
     (let stuckAgent = agents s ! k
      in filter (\<lambda>b. at_target (agents s ! b) \<and>
                      \<bar>agent_x (agents s ! b) - num (targetX stuckAgent)\<bar> +
                      \<bar>agent_y (agents s ! b) - num (targetY stuckAgent)\<bar> \<le> 2)
           [0..<length (agents s)])"

fun forceForStuck :: "nat list \<Rightarrow> sim \<Rightarrow> bool \<times> sim" where
  "forceForStuck [] s = (False, s)"
| "forceForStuck (k # ks) s =
     (case forceNear (blockersNear s k) s of
        (True, s1) \<Rightarrow> (True, calculatePath k s1)
      | (False, s1) \<Rightarrow> forceForStuck ks s1)"

text \<open>Cleared paths for every stuck agent; the loop goes on after a success.\<close>

fun clearedPaths :: "nat list \<Rightarrow> bool \<Rightarrow> sim \<Rightarrow> bool option \<times> sim" where
  "clearedPaths [] ok s = (Some ok, s)"
| "clearedPaths (k # ks) ok s =
     (case findTwoPhasePathThroughAgents k s of
        (None, s1) \<Rightarrow> (None, s1)
      | (Some True, s1) \<Rightarrow> clearedPaths ks True s1
      | (Some False, s1) \<Rightarrow>
          (case findPathIgnoringAgents k s1 of
             (True, s2) \<Rightarrow> clearedPaths ks True s2
           | (False, s2) \<Rightarrow> clearedPaths ks ok s2))"

text \<open>
  The ladder after the counter test. \<open>Finished\<close> is a \<open>return\<close> that leaves the
  simulation running; \<open>Proceed\<close> is the fall through to the final \<open>pauseSimulation\<close>.
\<close>

definition afterCleared :: "env \<Rightarrow> nat list \<Rightarrow> bool option \<times> sim \<Rightarrow> outcome \<times> sim" where
  "afterCleared e stuck r =
     (case r of
        (None, s3) \<Rightarrow> (Thrown, s3)
      | (Some True, s3) \<Rightarrow> (Finished, s3)
      | (Some False, s3) \<Rightarrow>
          (case tryRandomMoves e stuck s3 of
             (True, s4) \<Rightarrow> (Finished, s4)
           | (False, s4) \<Rightarrow>
               (case tryTargetReassignment s4 of
                  (None, s5) \<Rightarrow> (Thrown, s5)
                | (Some True, s5) \<Rightarrow> (Finished, s5)
                | (Some False, s5) \<Rightarrow> (Proceed, s5))))"

definition intervention :: "env \<Rightarrow> sim \<Rightarrow> outcome \<times> sim" where
  "intervention e s =
     (let stuck = stuckAgents s;
          r1 = forceForStuck stuck s;
          r2 = (if \<not> fst r1 \<and> length stuck \<ge> 2 then tryAgentSwapping stuck (snd r1) else r1);
          r3 = (if \<not> fst r2 then clearedPaths stuck False (snd r2) else (Some True, snd r2))
      in afterCleared e stuck r3)"

definition escalate :: "env \<Rightarrow> nat \<Rightarrow> sim \<Rightarrow> outcome \<times> sim" where
  "escalate e agentsWithNoMoves s =
     (case tryTargetReassignment s of
        (None, s1) \<Rightarrow> (Thrown, s1)
      | (Some True, s1) \<Rightarrow> (Finished, s1)
      | (Some False, s1) \<Rightarrow>
          (case tryMoveBlockingAgents s1 of
             (True, s2) \<Rightarrow> (Finished, s2)
           | (False, s2) \<Rightarrow>
               if agentsWithNoMoves > 0 then intervention e s2
               else
                 (case tryTargetReassignment s2 of
                    (None, s3) \<Rightarrow> (Thrown, s3)
                  | (Some True, s3) \<Rightarrow> (Finished, s3)
                  | (Some False, s3) \<Rightarrow> (Proceed, s3))))"

text \<open>The end of a tick whose ladder has found nothing: the simulation is paused.\<close>

definition giveUp :: "outcome \<times> sim \<Rightarrow> outcome \<times> sim" where
  "giveUp r = (case r of (Proceed, s1) \<Rightarrow> (Finished, pauseSimulation s1) | _ \<Rightarrow> r)"

text \<open>The pause with the restart in sequential mode scheduled.\<close>

definition scheduleRestart :: "sim \<Rightarrow> sim" where
  "scheduleRestart s =
     (pauseSimulation s)\<lparr> failedDeadlockResolutionAttempts := 0,
                           timers := timers s @ [RestartSequential] \<rparr>"

definition noMovement :: "env \<Rightarrow> nat \<Rightarrow> sim \<Rightarrow> outcome \<times> sim" where
  "noMovement e agentsWithNoMoves s0 =
     (let s = s0\<lparr> failedDeadlockResolutionAttempts := failedDeadlockResolutionAttempts s0 + 1 \<rparr> in
      if currentDecisionMode s = Distributed \<and> sequentialMovementMode s
      then (Finished, fold widenAndPlan [0..<length (agents s)] s)
      else if failedDeadlockResolutionAttempts s \<ge> 5
      then (Finished, scheduleRestart s)
      else giveUp (escalate e agentsWithNoMoves s))"

subsection \<open>simulationStep\<close>

text \<open>
  The body of the \<open>try\<close> block, and the tick itself: a throw ends in
  \<open>pauseSimulation\<close>.
\<close>

definition stepBody :: "env \<Rightarrow> sim \<Rightarrow> outcome \<times> sim" where
  "stepBody e s0 =
     (case deadlockPhase s0 of
        (Proceed, s1) \<Rightarrow>
          (case movePhase e s1 of (agentsMovedCount, s2) \<Rightarrow>
             if length (agentsAtTargets s2) = length (agents s2) then (Finished, pauseSimulation s2)
             else if agentsMovedCount = 0 then noMovement e (length (stuckAgents s2)) s2
             else (Finished, s2))
      | r \<Rightarrow> r)"

definition simulationStep :: "env \<Rightarrow> sim \<Rightarrow> sim" where
  "simulationStep e s =
     (case stepBody e s of
        (Thrown, s1) \<Rightarrow> pauseSimulation s1
      | (_, s1) \<Rightarrow> s1)"

subsection \<open>Setting up a simulation\<close>

text \<open>
  The globals as the script declares them, after \<open>initializeGrid\<close> has run with the
  given grid size in manual generation mode: an empty square grid, no agents, no
  targets, and a deadlock handler built on the two arrays.
\<close>

definition createEmptyGrid :: "int \<Rightarrow> grid" where
  "createEmptyGrid n = replicate (nat n) (replicate (nat n) CELL_EMPTY)"

definition initialState :: "int \<Rightarrow> sim" where
  "initialState n =
     \<lparr> sim_grid = createEmptyGrid n, agents = [], targetPositions = [], gridSize = n,
       isSimulationRunning = False, simulationInterval = False, totalMoves = 0,
       deadlockHandler = DeadlockHandler_new (createEmptyGrid n) [],
       handlerSharesGrid = True, handlerSharesAgents = True,
       failedDeadlockResolutionAttempts = 0, sequentialMovementMode = False,
       sequentialMovesRemaining = 0, currentDecisionMode = Centralized,
       currentAlgorithm = AlgAStar, currentTopology = VonNeumann,
       lastDeadlockSignature = [], repeatedDeadlockCount = 0, timers = [], randomCalls = 0 \<rparr>"

text \<open>\<open>addAgent\<close> and \<open>toggleTarget\<close> for a cell of the grid.\<close>

definition addAgent :: "int \<Rightarrow> int \<Rightarrow> sim \<Rightarrow> sim" where
  "addAgent x y s =
     (if cell (sim_grid s) x y = Some CELL_WALL \<or> list_ex (\<lambda>a. agent_x a = x \<and> agent_y a = y) (agents s)
      then s
      else s\<lparr> agents := agents s @
                  [new_agent (length (agents s)) x y
                     (if currentDecisionMode s = Distributed then Some 3 else None)],
              sim_grid := grid_set (sim_grid s) x y CELL_AGENT \<rparr>)"

definition toggleTarget :: "int \<Rightarrow> int \<Rightarrow> sim \<Rightarrow> sim" where
  "toggleTarget x y s =
     (if cell (sim_grid s) x y = Some CELL_WALL then s
      else if (x, y) \<in> set (targetPositions s)
      then s\<lparr> targetPositions := remove1 (x, y) (targetPositions s) \<rparr>
      else s\<lparr> targetPositions := targetPositions s @ [(x, y)] \<rparr>)"

definition toggleWall :: "int \<Rightarrow> int \<Rightarrow> sim \<Rightarrow> sim" where
  "toggleWall x y s =
     (if list_ex (\<lambda>a. agent_x a = x \<and> agent_y a = y) (agents s) then s
      else if (x, y) \<in> set (targetPositions s) then s
      else if cell (sim_grid s) x y = Some CELL_WALL
      then s\<lparr> sim_grid := grid_set (sim_grid s) x y CELL_EMPTY \<rparr>
      else s\<lparr> sim_grid := grid_set (sim_grid s) x y CELL_WALL \<rparr>)"

text \<open>
  A random source for running examples: \<open>Math.random()\<close> gives \<open>0\<close> at every call and
  the random sort leaves the order as it is.
\<close>

definition steadyRandom :: env where
  "steadyRandom = \<lparr> random = (\<lambda>n. 0), shuffle = (\<lambda>n xs. xs) \<rparr>"



text \<open>\<open>run e n\<close> is the state after \<open>n\<close> ticks.\<close>

primrec run :: "env \<Rightarrow> nat \<Rightarrow> sim \<Rightarrow> sim" where
  "run e 0 s = s"
| "run e (Suc n) s = run e n (simulationStep e s)"


definition pendingRestarts :: "sim \<Rightarrow> nat" where
  "pendingRestarts s = length (filter (\<lambda>t. t = RestartSequential) (timers s))"

text \<open>
  The globals that the planning and moving functions leave alone (they write to the
  agents, the grid, the handler and the counters of moves and random draws).
\<close>

definition globals :: "sim \<Rightarrow> (int \<times> pos list \<times> bool \<times> bool) \<times> (bool \<times> bool \<times> nat \<times> bool) \<times> (decision_mode \<times> algorithm \<times> topology \<times> nat)" where
  "globals s =
     ((gridSize s, targetPositions s, isSimulationRunning s, simulationInterval s),
      (handlerSharesGrid s, handlerSharesAgents s, failedDeadlockResolutionAttempts s, sequentialMovementMode s),
      (currentDecisionMode s, currentAlgorithm s, currentTopology s, pendingRestarts s))"

text \<open>The targets of the agents under the planning functions.\<close>

definition goals :: "sim \<Rightarrow> pos option list" where
  "goals s = map agent_goal (agents s)"

section \<open>Every A* search returns\<close>

text \<open>
  The parent chain of every cell runs through closed cells only, so the reconstruction
  loop ends.
\<close>

inductive chain_ok :: "(pos \<rightharpoonup> pos) \<Rightarrow> pos set \<Rightarrow> pos \<Rightarrow> bool" for parent :: "pos \<rightharpoonup> pos" and S :: "pos set" where
  chain_root: "parent n = None \<Longrightarrow> chain_ok parent S n"
| chain_step: "parent n = Some p \<Longrightarrow> p \<in> S \<Longrightarrow> chain_ok parent S p \<Longrightarrow> chain_ok parent S n"

lemma chain_ok_mono: "chain_ok parent S n \<Longrightarrow> S \<subseteq> T \<Longrightarrow> chain_ok parent T n"
  by (induction rule: chain_ok.induct) (auto intro: chain_ok.intros)

lemma chain_ok_update_other:
  assumes "chain_ok parent S x" "x \<noteq> m" "m \<notin> S"
  shows "chain_ok (parent(m \<mapsto> c)) S x"
  using assms
proof (induction rule: chain_ok.induct)
  case (chain_root n)
  then show ?case by (simp add: chain_ok.chain_root)
next
  case (chain_step n p)
  then have "p \<noteq> m" by auto
  then show ?case using chain_step by (auto intro: chain_ok.chain_step)
qed

lemma chain_ok_update:
  assumes all: "\<forall>x. chain_ok parent S x" and m: "m \<notin> S" and c: "c \<in> S"
  shows "chain_ok (parent(m \<mapsto> c)) S x"
proof (cases "x = m")
  case False
  then show ?thesis using all m chain_ok_update_other by blast
next
  case True
  have "c \<noteq> m" using m c by auto
  then have "chain_ok (parent(m \<mapsto> c)) S c" using all m chain_ok_update_other by blast
  then show ?thesis using True c by (auto intro: chain_ok.chain_step)
qed

lemma reconstructLoop_total: "chain_ok parent S n \<Longrightarrow> reconstructLoop parent n acc \<noteq> None"
proof (induction arbitrary: acc rule: chain_ok.induct)
  case (chain_root n)
  then show ?case by (subst reconstructLoop.simps) simp
next
  case (chain_step n p)
  then show ?case by (subst reconstructLoop.simps) simp
qed

definition astar_chains :: "astar_state \<Rightarrow> bool" where
  "astar_chains st = (case st of (openSet, closedSet, cameFrom, gScore) \<Rightarrow> \<forall>x. chain_ok cameFrom closedSet x)"

lemma astar_visit_chains:
  assumes "astar_chains st" "current \<in> fst (snd st)"
  shows "astar_chains (astar_visit a end current dir st)"
proof -
  obtain openSet closedSet cameFrom gScore where st: "st = (openSet, closedSet, cameFrom, gScore)"
    by (cases st) auto
  have all: "\<forall>x. chain_ok cameFrom closedSet x" and c: "current \<in> closedSet"
    using assms by (auto simp: astar_chains_def st)
  show ?thesis
  proof (cases "astar_visit a end current dir st = st")
    case True
    then show ?thesis using assms by simp
  next
    case False
    define n where "n = (fst current + fst dir, snd current + snd dir)"
    from False have nc: "n \<notin> closedSet"
      and res: "\<exists>os gs. astar_visit a end current dir st = (os, closedSet, cameFrom(n \<mapsto> current), gs)"
      by (auto simp: astar_visit_def st n_def Let_def split: if_splits)
    then show ?thesis using chain_ok_update[OF all nc c] by (auto simp: astar_chains_def)
  qed
qed

lemma astar_visit_closed: "fst (snd (astar_visit a end current dir st)) = fst (snd st)"
  by (cases st) (auto simp: astar_visit_def Let_def)

lemma astar_fold_chains:
  assumes "astar_chains st" "current \<in> fst (snd st)"
  shows "astar_chains (fold (astar_visit a end current) dirs st)"
  using assms
proof (induction dirs arbitrary: st)
  case Nil
  then show ?case by simp
next
  case (Cons d ds)
  then show ?case by (simp add: astar_visit_chains astar_visit_closed)
qed

lemma astar_loop_total: "astar_chains st \<Longrightarrow> astar_loop a end st \<noteq> None"
proof (induction a "end" st rule: astar_loop.induct)
  case (1 a "end" st)
  obtain openSet closedSet cameFrom gScore where st: "st = (openSet, closedSet, cameFrom, gScore)"
    by (cases st) auto
  have all: "\<forall>x. chain_ok cameFrom closedSet x" using 1(2) by (simp add: astar_chains_def st)
  show ?case
  proof (cases "sort_f openSet")
    case Nil
    then show ?thesis by (subst astar_loop.simps) (simp add: st)
  next
    case (Cons e rest)
    show ?thesis
    proof (cases "Some (fst e) = end")
      case True
      have "chain_ok cameFrom closedSet (fst e)" using all by blast
      then have "reconstructPath cameFrom (fst e) \<noteq> None"
        unfolding reconstructPath_def by (rule reconstructLoop_total)
      then show ?thesis using True Cons
        by (subst astar_loop.simps) (simp add: st)
    next
      case False
      let ?st1 = "(rest, insert (fst e) closedSet, cameFrom, gScore)"
      have "astar_chains ?st1"
        using all chain_ok_mono[of cameFrom closedSet _ "insert (fst e) closedSet"]
        by (auto simp: astar_chains_def)
      then have "astar_chains (fold (astar_visit a end (fst e)) (as_directions a) ?st1)"
        by (rule astar_fold_chains) simp
      then have "astar_loop a end (fold (astar_visit a end (fst e)) (as_directions a) ?st1) \<noteq> None"
        using 1(1)[OF st[symmetric] refl refl Cons refl False] by simp
      then show ?thesis using Cons False
        by (subst astar_loop.simps) (simp add: st Let_def)
    qed
  qed
qed

lemma AStar_findPath_total: "as_grid a \<noteq> [] \<Longrightarrow> AStar_findPath a start end \<noteq> None"
  by (simp add: AStar_findPath_def astar_loop_total astar_chains_def chain_ok.chain_root)

lemma AStar_findPath_null_total: "as_grid a \<noteq> [] \<Longrightarrow> AStar_findPath_null a start \<noteq> None"
  by (simp add: AStar_findPath_null_def astar_loop_total astar_chains_def chain_ok.chain_root)


section \<open>A* returns a cheapest path\<close>


































section \<open>Properties of the greedy assignment\<close>

definition scan_inv :: "bool list \<Rightarrow> nat \<Rightarrow> int option \<times> nat option \<Rightarrow> bool" where
  "scan_inv cc n st =
     (case st of (mv, mj) \<Rightarrow>
        (case mj of Some j \<Rightarrow> j < n \<and> \<not> cc ! j
         | None \<Rightarrow> mv = None \<and> (\<forall>j<n. cc ! j)))"

lemma scan_inv_step: "scan_inv cc n st \<Longrightarrow> scan_inv cc (Suc n) (scanColumn row cc n st)"
proof -
  assume a: "scan_inv cc n st"
  obtain mv mj where st: "st = (mv, mj)" by (cases st) auto
  show ?thesis
  proof (cases mj)
    case None
    then have "mv = None" "\<forall>j<n. cc ! j" using a by (auto simp: scan_inv_def st)
    then show ?thesis using None
      by (cases "cc ! n") (auto simp: scan_inv_def st scanColumn_def less_Suc_eq)
  next
    case (Some j)
    then have "j < n" "\<not> cc ! j" using a by (auto simp: scan_inv_def st)
    then show ?thesis using Some
      by (auto simp: scan_inv_def st scanColumn_def)
  qed
qed

lemma scan_fold_inv: "scan_inv cc n (fold (scanColumn row cc) [0..<n] (None, None))"
  by (induction n) (simp_all add: scan_inv_def[of cc 0] scan_inv_step)

lemma findMinColumn_Some: "findMinColumn row cc w = Some j \<Longrightarrow> j < w \<and> \<not> cc ! j"
  using scan_fold_inv[of cc w row]
  by (cases "fold (scanColumn row cc) [0..<w] (None, None)") (simp add: findMinColumn_def scan_inv_def)

lemma findMinColumn_None: "findMinColumn row cc w = None \<Longrightarrow> j < w \<Longrightarrow> cc ! j"
  using scan_fold_inv[of cc w row]
  by (cases "fold (scanColumn row cc) [0..<w] (None, None)") (simp add: findMinColumn_def scan_inv_def)

definition greedy_inv :: "nat \<Rightarrow> nat \<Rightarrow> nat \<Rightarrow> assign_state \<Rightarrow> bool" where
  "greedy_inv h w i st =
     (case st of (asg, rc, cc) \<Rightarrow>
        map fst asg = [0..<i] \<and> distinct (map snd asg) \<and> length cc = w \<and> length rc = h \<and>
        (\<forall>j<w. cc ! j \<longleftrightarrow> j \<in> snd ` set asg) \<and> snd ` set asg \<subseteq> {..<w} \<and>
        (\<forall>k<h. rc ! k \<longleftrightarrow> k < i))"

lemma greedy_inv_init: "greedy_inv h w 0 ([], replicate h False, replicate w False)"
  by (simp add: greedy_inv_def)

lemma greedy_inv_step:
  assumes inv: "greedy_inv h w i st" and ih: "i < h" and hw: "h \<le> w"
  shows "greedy_inv h w (Suc i) (greedyRow costs w i st)"
proof -
  obtain asg rc cc where st: "st = (asg, rc, cc)" by (cases st) auto
  from inv have a1: "map fst asg = [0..<i]" and a2: "distinct (map snd asg)"
    and a3: "length cc = w" and a4: "length rc = h"
    and a5: "\<forall>j<w. cc ! j \<longleftrightarrow> j \<in> snd ` set asg" and a6: "snd ` set asg \<subseteq> {..<w}"
    and a7: "\<forall>k<h. rc ! k \<longleftrightarrow> k < i"
    by (auto simp: greedy_inv_def st)
  have len: "length asg = i" using a1 by (metis length_map length_upt minus_nat.diff_0)
  have "card (snd ` set asg) = i"
    using a2 len by (metis distinct_card length_map set_map)
  then have "card (snd ` set asg) < card {..<w}" using ih hw by simp
  then have "\<not> {..<w} \<subseteq> snd ` set asg"
    by (meson List.finite_set card_mono finite_imageI not_less)
  then obtain j0 where j0: "j0 < w" "j0 \<notin> snd ` set asg" by auto
  then have "\<not> cc ! j0" using a5 by simp
  then have "findMinColumn (costs ! i) cc w \<noteq> None"
    using findMinColumn_None j0(1) by blast
  then obtain j where fj: "findMinColumn (costs ! i) cc w = Some j" by auto
  then have j: "j < w" "\<not> cc ! j" using findMinColumn_Some by blast+
  then have jn: "j \<notin> snd ` set asg" using a5 by simp
  have res: "greedyRow costs w i st = (asg @ [(i, j)], rc[i := True], cc[j := True])"
    by (simp add: greedyRow_def st fj)
  have b1: "map fst (asg @ [(i, j)]) = [0..<Suc i]" using a1 by simp
  have b2: "distinct (map snd (asg @ [(i, j)]))" using a2 jn by simp
  have b5: "\<forall>k<w. (cc[j := True]) ! k \<longleftrightarrow> k \<in> snd ` set (asg @ [(i, j)])"
    using a5 a3 j(1) by (simp add: nth_list_update)
  have b6: "snd ` set (asg @ [(i, j)]) \<subseteq> {..<w}" using a6 j(1) by simp
  have b7: "\<forall>k<h. (rc[i := True]) ! k \<longleftrightarrow> k < Suc i"
    using a7 a4 ih by (simp add: nth_list_update less_Suc_eq)
  show ?thesis
    unfolding res greedy_inv_def using b1 b2 b5 b6 b7 a3 a4 by simp
qed

lemma greedy_inv_fold:
  assumes "h' \<le> h" "h \<le> w"
  shows "greedy_inv h w h' (fold (greedyRow costs w) [0..<h'] ([], replicate h False, replicate w False))"
  using assms
proof (induction h')
  case 0
  then show ?case by (simp add: greedy_inv_init)
next
  case (Suc n)
  then show ?case by (simp add: greedy_inv_step)
qed

lemma leftover_fold_id:
  assumes "greedy_inv h w h st" "n \<le> h"
  shows "fold (leftoverRow w) [0..<n] st = st"
  using assms(2)
proof (induction n)
  case 0
  then show ?case by simp
next
  case (Suc n)
  obtain asg rc cc where st: "st = (asg, rc, cc)" by (cases st) auto
  have "rc ! n" using assms(1) Suc.prems by (auto simp: greedy_inv_def st)
  then have "leftoverRow w n st = st" by (simp add: leftoverRow_def st)
  then show ?case using Suc by simp
qed

lemma findAssignments_one_to_one:
  assumes "h \<le> w"
  shows "map fst (findAssignments costs h w) = [0..<h] \<and>
         distinct (map snd (findAssignments costs h w)) \<and>
         snd ` set (findAssignments costs h w) \<subseteq> {..<w}"
proof -
  let ?st = "fold (greedyRow costs w) [0..<h] ([], replicate h False, replicate w False)"
  have inv: "greedy_inv h w h ?st" using assms by (simp add: greedy_inv_fold)
  then have "findAssignments costs h w = fst ?st"
    by (simp add: findAssignments_def leftover_fold_id)
  then show ?thesis using inv by (cases ?st) (auto simp: greedy_inv_def)
qed

lemma those_map_Some:
  "those (map f xs) = Some ys \<Longrightarrow> length ys = length xs \<and> (\<forall>i<length xs. f (xs ! i) = Some (ys ! i))"
proof (induction xs arbitrary: ys)
  case Nil
  then show ?case by simp
next
  case (Cons x xs)
  from Cons.prems obtain y zs where fx: "f x = Some y" and zs: "those (map f xs) = Some zs"
    and ys: "ys = y # zs"
    by (auto split: option.splits)
  have ih: "length zs = length xs" "\<forall>i<length xs. f (xs ! i) = Some (zs ! i)"
    using Cons.IH[OF zs] by auto
  show ?case
  proof (intro conjI allI impI)
    show "length ys = length (x # xs)" using ih ys by simp
  next
    fix i assume "i < length (x # xs)"
    then show "f ((x # xs) ! i) = Some (ys ! i)"
      using ih fx ys by (cases i) auto
  qed
qed

lemma createCostMatrix_shape:
  assumes "createCostMatrix agentPositions targets g = Some m"
  shows "length m = length agentPositions \<and> (\<forall>i<length agentPositions. length (m ! i) = length targets)"
proof -
  let ?f = "\<lambda>a. those (map (\<lambda>t. pairCost g a t) targets)"
  have m: "those (map ?f agentPositions) = Some m" using assms by (simp add: createCostMatrix_def)
  have l: "length m = length agentPositions" and e: "\<forall>i<length agentPositions. ?f (agentPositions ! i) = Some (m ! i)"
    using those_map_Some[OF m] by auto
  have "length (m ! i) = length targets" if "i < length agentPositions" for i
  proof -
    have "?f (agentPositions ! i) = Some (m ! i)" using e that by simp
    then show ?thesis using those_map_Some by blast
  qed
  then show ?thesis using l by simp
qed


lemma those_total: "(\<forall>x \<in> set xs. f x \<noteq> None) \<Longrightarrow> those (map f xs) \<noteq> None"
  by (induction xs) (auto split: option.splits)

lemma pairCost_total: "g \<noteq> [] \<Longrightarrow> pairCost g a t \<noteq> None"
proof -
  assume "g \<noteq> []"
  then have "AStar_findPath (AStar_new_default g) a t \<noteq> None"
    by (intro AStar_findPath_total) (simp add: AStar_new_default_def AStar_new_def)
  then show ?thesis by (auto simp: pairCost_def)
qed

lemma createCostMatrix_total: "g \<noteq> [] \<Longrightarrow> createCostMatrix agentPositions targets g \<noteq> None"
  unfolding createCostMatrix_def
  by (intro those_total ballI) (simp add: pairCost_total)

lemma findOptimalAssignment_one_to_one:
  assumes "length agentPositions \<le> length targets" and "g \<noteq> []"
  shows "\<exists>asg. findOptimalAssignment agentPositions targets g = Some asg \<and>
           map agent asg = [0..<length agentPositions] \<and> distinct (map target asg) \<and>
           (\<forall>a \<in> set asg. target a < length targets)"
proof -
  have "createCostMatrix agentPositions targets g \<noteq> None"
    using createCostMatrix_total[OF assms(2)] .
  then obtain m where m: "createCostMatrix agentPositions targets g = Some m" by auto
  define asg where "asg = map (\<lambda>(row, col). \<lparr> agent = row, target = col \<rparr>) (hungarianAlgorithm m)"
  have ret: "findOptimalAssignment agentPositions targets g = Some asg"
    by (simp add: findOptimalAssignment_def m asg_def)
  have shape: "length m = length agentPositions" "\<forall>i<length agentPositions. length (m ! i) = length targets"
    using createCostMatrix_shape[OF m] by auto
  have ma: "map agent asg = map fst (hungarianAlgorithm m)"
    and mt: "map target asg = map snd (hungarianAlgorithm m)"
    by (auto simp: asg_def)
  have "map agent asg = [0..<length agentPositions] \<and> distinct (map target asg) \<and>
        (\<forall>a \<in> set asg. target a < length targets)"
  proof (cases "agentPositions = []")
    case True
    then have "hungarianAlgorithm m = []" using shape by (simp add: hungarianAlgorithm_def)
    then show ?thesis using True by (simp add: asg_def)
  next
    case False
    then have w: "length (m ! 0) = length targets" using shape by simp
    have "\<exists>c. hungarianAlgorithm m = findAssignments c (length agentPositions) (length targets)"
      using False shape w by (auto simp: hungarianAlgorithm_def Let_def)
    then obtain c where h: "hungarianAlgorithm m = findAssignments c (length agentPositions) (length targets)"
      by auto
    have "set (map target asg) \<subseteq> {..<length targets}"
      using findAssignments_one_to_one[OF assms(1), of c] by (simp add: mt h)
    then have "\<forall>a \<in> set asg. target a < length targets" by auto
    then show ?thesis
      using findAssignments_one_to_one[OF assms(1), of c] by (simp add: ma mt h)
  qed
  then show ?thesis using ret by blast
qed

section \<open>Properties of the deadlock handler\<close>

lemma trackAgent_count: "deadlockCount (trackAgent a h) = deadlockCount h"
  by (simp add: trackAgent_def Let_def)

lemma trackAgent_fold_count: "deadlockCount (fold trackAgent ags h) = deadlockCount h"
  by (induction ags arbitrary: h) (simp_all add: trackAgent_count)

lemma updatePositionTracking_count: "deadlockCount (updatePositionTracking h) = deadlockCount h"
  by (simp add: updatePositionTracking_def trackAgent_fold_count)

lemma map_update_same:
  assumes "\<And>a. f (g a) = f a"
  shows "map f (xs[i := g (xs ! i)]) = map f xs"
proof (cases "i < length xs")
  case True
  then have "(map f xs)[i := f (xs ! i)] = map f xs"
    by (metis list_update_id nth_map)
  then show ?thesis by (simp add: map_update assms)
next
  case False
  then have "xs[i := g (xs ! i)] = xs" by (metis list_update_beyond not_less)
  then show ?thesis by simp
qed

lemma agentsOnRows_map:
  "agentsOnRows h = (\<forall>y \<in> set (map agent_y (dh_agents h)). 0 \<le> y \<and> y < rows (dh_grid h))"
  by (auto simp: agentsOnRows_def)

lemma findAlternativePath_count:
  "findAlternativePath h i = Some (b, h1) \<Longrightarrow>
     deadlockCount h1 = deadlockCount h \<and> dh_grid h1 = dh_grid h \<and>
     map agent_y (dh_agents h1) = map agent_y (dh_agents h)"
proof -
  assume a: "findAlternativePath h i = Some (b, h1)"
  have m: "map agent_y (set_path i p (dh_agents h)) = map agent_y (dh_agents h)" for p
    unfolding set_path_def by (rule map_update_same) simp
  show ?thesis using a m
    by (auto simp: findAlternativePath_def Let_def split: option.splits if_splits)
qed

lemma temporaryRetreat_count:
  "temporaryRetreat h i = Some (b, h1) \<Longrightarrow>
     deadlockCount h1 = deadlockCount h \<and> dh_grid h1 = dh_grid h \<and>
     map agent_y (dh_agents h1) = map agent_y (dh_agents h)"
proof -
  assume a: "temporaryRetreat h i = Some (b, h1)"
  have m: "map agent_y ((dh_agents h)[i := (dh_agents h ! i)\<lparr> path := p, isRetreating := True \<rparr>])
             = map agent_y (dh_agents h)" for p
    by (rule map_update_same[where g = "\<lambda>a. a\<lparr> path := p, isRetreating := True \<rparr>"]) simp
  show ?thesis using a m
    by (auto simp: temporaryRetreat_def Let_def split: option.splits if_splits list.splits)
qed

lemma createClearedPathForAgent_count:
  "createClearedPathForAgent h i = Some (b, h1) \<Longrightarrow>
     deadlockCount h1 = deadlockCount h \<and> dh_grid h1 = dh_grid h \<and>
     map agent_y (dh_agents h1) = map agent_y (dh_agents h)"
proof -
  assume a: "createClearedPathForAgent h i = Some (b, h1)"
  have m: "map agent_y (set_path i p (dh_agents h)) = map agent_y (dh_agents h)" for p
    unfolding set_path_def by (rule map_update_same) simp
  show ?thesis using a m
    by (auto simp: createClearedPathForAgent_def Let_def split: option.splits if_splits)
qed

lemma resolveOne_count:
  assumes "resolveOne agentId h = Some h1"
  shows "deadlockCount h1 = deadlockCount h \<and> dh_grid h1 = dh_grid h \<and>
         map agent_y (dh_agents h1) = map agent_y (dh_agents h)"
proof (cases "find_agent (dh_agents h) agentId")
  case None
  then show ?thesis using assms by (simp add: resolveOne_def)
next
  case (Some i)
  from assms Some obtain b ha where fa: "findAlternativePath h i = Some (b, ha)"
    by (auto simp: resolveOne_def split: option.splits)
  note ca = findAlternativePath_count[OF fa]
  show ?thesis
  proof (cases b)
    case True
    then show ?thesis using assms Some fa ca by (simp add: resolveOne_def)
  next
    case False
    from assms Some fa False obtain b2 hb where tr: "temporaryRetreat ha i = Some (b2, hb)"
      by (auto simp: resolveOne_def split: option.splits)
    note cb = temporaryRetreat_count[OF tr]
    show ?thesis
    proof (cases b2)
      case True
      then show ?thesis using assms Some fa False tr ca cb by (simp add: resolveOne_def)
    next
      case b2f: False
      from assms Some fa False tr b2f obtain b3 where "createClearedPathForAgent hb i = Some (b3, h1)"
        by (auto simp: resolveOne_def)
      then show ?thesis using createClearedPathForAgent_count[of hb i b3 h1] ca cb by simp
    qed
  qed
qed

lemma resolveAll_count:
  "resolveAll ids h = Some h1 \<Longrightarrow>
     deadlockCount h1 = deadlockCount h \<and> dh_grid h1 = dh_grid h \<and>
     map agent_y (dh_agents h1) = map agent_y (dh_agents h)"
proof (induction ids arbitrary: h)
  case Nil
  then show ?case by simp
next
  case (Cons i ids)
  then obtain h2 where r: "resolveOne i h = Some h2" and a: "resolveAll ids h2 = Some h1"
    by (auto split: option.splits)
  show ?case using resolveOne_count[OF r] Cons.IH[OF a] by simp
qed

lemma resolveDeadlocks_count:
  "resolveDeadlocks h ids = Some h1 \<Longrightarrow> deadlockCount h1 = deadlockCount h + (if ids = [] then 0 else 1)"
  by (auto simp: resolveDeadlocks_def split: if_splits dest: resolveAll_count)

lemma dh_apply_count:
  "dh_apply op h = Some h1 \<Longrightarrow> deadlockCount h1 = deadlockCount h + resolve_calls [op]"
  by (cases op) (auto simp: updatePositionTracking_count dest: resolveDeadlocks_count)

lemma resolve_calls_Cons: "resolve_calls (op # ops) = resolve_calls [op] + resolve_calls ops"
  by (cases op) auto

lemma dh_run_count:
  "dh_run ops h = Some h1 \<Longrightarrow> deadlockCount h1 = deadlockCount h + resolve_calls ops"
proof (induction ops arbitrary: h)
  case Nil
  then show ?case by simp
next
  case (Cons op ops)
  then obtain h2 where r: "dh_apply op h = Some h2" and a: "dh_run ops h2 = Some h1"
    by (auto split: option.splits)
  show ?case using dh_apply_count[OF r] Cons.IH[OF a] resolve_calls_Cons[of op ops] by simp
qed

lemma length_grid_set: "length (grid_set g x y v) = length g"
  by (simp add: grid_set_def)

lemma writeCell_rows:
  "writeCell g x y v = Some g1 \<Longrightarrow> length g1 = length g"
  by (auto simp: writeCell_def Let_def split: if_splits)

lemma writeCell_total: "0 \<le> y \<Longrightarrow> y < rows g \<Longrightarrow> writeCell g x y v \<noteq> None"
  by (simp add: writeCell_def Let_def)

lemma markAgent_total:
  assumes "0 \<le> agent_y a" and "agent_y a < rows g"
  shows "\<exists>g1. markAgent a (Some g) = Some g1 \<and> length g1 = length g"
proof -
  obtain g1 where w1: "writeCell g (agent_x a) (agent_y a) 1 = Some g1"
    using writeCell_total[OF assms, of "agent_x a" 1] by auto
  have l1: "length g1 = length g" using writeCell_rows[OF w1] .
  then have "agent_y a < rows g1" using assms(2) by (simp add: rows_def)
  then obtain g2 where w2: "writeCell g1 (agent_x a) (agent_y a) 1 = Some g2"
    using writeCell_total[OF assms(1), of g1 "agent_x a" 1] by auto
  have l2: "length g2 = length g" using writeCell_rows[OF w2] l1 by simp
  show ?thesis using w1 w2 l1 l2 by (simp add: markAgent_def)
qed

lemma markAgent_fold_total:
  assumes "\<forall>a \<in> set ags. 0 \<le> agent_y a \<and> agent_y a < rows g"
  shows "\<exists>g1. fold markAgent ags (Some g) = Some g1 \<and> length g1 = length g"
  using assms
proof (induction ags arbitrary: g)
  case Nil
  then show ?case by simp
next
  case (Cons a ags)
  obtain g1 where m: "markAgent a (Some g) = Some g1" and l: "length g1 = length g"
    using markAgent_total[of a g] Cons.prems by auto
  have "\<forall>b \<in> set ags. 0 \<le> agent_y b \<and> agent_y b < rows g1"
    using Cons.prems l by (simp add: rows_def)
  then obtain g2 where "fold markAgent ags (Some g1) = Some g2" and "length g2 = length g1"
    using Cons.IH[of g1] by auto
  then show ?case using m l by simp
qed

lemma createModifiedGrid_total:
  assumes "dh_grid h \<noteq> []" and "agentsOnRows h"
  shows "\<exists>g. createModifiedGrid h = Some g \<and> g \<noteq> []"
proof -
  have "\<forall>a \<in> set (dh_agents h). 0 \<le> agent_y a \<and> agent_y a < rows (dh_grid h)"
    using assms(2) by (simp add: agentsOnRows_def)
  then obtain g where "fold markAgent (dh_agents h) (Some (dh_grid h)) = Some g"
    and "length g = length (dh_grid h)"
    using markAgent_fold_total by blast
  then show ?thesis using assms(1) by (auto simp: createModifiedGrid_def)
qed

lemma AStar_search_total: "as_grid a \<noteq> [] \<Longrightarrow> AStar_search a start goal \<noteq> None"
  by (cases goal) (simp_all add: AStar_search_def AStar_findPath_total AStar_findPath_null_total)

lemma AStar_default_total: "g \<noteq> [] \<Longrightarrow> AStar_search (AStar_new_default g) s e \<noteq> None"
  by (intro AStar_search_total) (simp add: AStar_new_default_def AStar_new_def)

lemma findAlternativePath_total:
  assumes "dh_grid h \<noteq> []" and "agentsOnRows h"
  shows "findAlternativePath h i \<noteq> None"
proof -
  obtain g where g: "createModifiedGrid h = Some g" and ne: "g \<noteq> []"
    using createModifiedGrid_total[OF assms] by auto
  have "AStar_search (AStar_new_default g)
      (agent_pos (dh_agents h ! i)) (agent_goal (dh_agents h ! i)) \<noteq> None"
    using ne by (rule AStar_default_total)
  then show ?thesis using g by (auto simp: findAlternativePath_def Let_def)
qed

lemma createClearedPathForAgent_total: "dh_grid h \<noteq> [] \<Longrightarrow> createClearedPathForAgent h i \<noteq> None"
proof -
  assume "dh_grid h \<noteq> []"
  then have "wallsOnly (dh_grid h) \<noteq> []" by (simp add: wallsOnly_def)
  then have "AStar_search (AStar_new_default (wallsOnly (dh_grid h)))
      (agent_pos (dh_agents h ! i)) (agent_goal (dh_agents h ! i)) \<noteq> None"
    by (rule AStar_default_total)
  then show ?thesis by (auto simp: createClearedPathForAgent_def Let_def)
qed

lemma temporaryRetreat_total: "dh_grid h \<noteq> [] \<Longrightarrow> temporaryRetreat h i \<noteq> None"
  by (auto simp: temporaryRetreat_def Let_def split: list.splits)

lemma resolveOne_total:
  assumes "dh_grid h \<noteq> []" and "agentsOnRows h"
  shows "resolveOne agentId h \<noteq> None"
proof (cases "find_agent (dh_agents h) agentId")
  case None
  then show ?thesis by (simp add: resolveOne_def)
next
  case (Some i)
  obtain b ha where fa: "findAlternativePath h i = Some (b, ha)"
    using findAlternativePath_total[OF assms, of i] by auto
  have ga: "dh_grid ha \<noteq> []" using findAlternativePath_count[OF fa] assms by simp
  obtain b2 hb where tr: "temporaryRetreat ha i = Some (b2, hb)"
    using temporaryRetreat_total[OF ga, of i] by auto
  have gb: "dh_grid hb \<noteq> []" using temporaryRetreat_count[OF tr] ga by simp
  obtain r where cc: "createClearedPathForAgent hb i = Some r"
    using createClearedPathForAgent_total[OF gb, of i] by auto
  show ?thesis using Some fa tr cc by (cases b; cases b2) (simp_all add: resolveOne_def)
qed

lemma resolveAll_total: "dh_grid h \<noteq> [] \<Longrightarrow> agentsOnRows h \<Longrightarrow> resolveAll ids h \<noteq> None"
proof (induction ids arbitrary: h)
  case Nil
  then show ?case by simp
next
  case (Cons i ids)
  obtain h2 where r: "resolveOne i h = Some h2"
    using resolveOne_total[OF Cons.prems, of i] by auto
  note c = resolveOne_count[OF r]
  have g2: "dh_grid h2 \<noteq> []" using c Cons.prems(1) by simp
  have o2: "agentsOnRows h2" using c Cons.prems(2) by (simp add: agentsOnRows_map)
  show ?case using r Cons.IH[OF g2 o2] by simp
qed

lemma resolveDeadlocks_total:
  assumes "dh_grid h \<noteq> []" and "agentsOnRows h"
  shows "resolveDeadlocks h ids \<noteq> None"
proof (cases "ids = []")
  case True
  then show ?thesis by (simp add: resolveDeadlocks_def)
next
  case False
  have "dh_grid (h\<lparr> deadlockCount := deadlockCount h + 1 \<rparr>) \<noteq> []" using assms by simp
  moreover have "agentsOnRows (h\<lparr> deadlockCount := deadlockCount h + 1 \<rparr>)"
    using assms(2) by (simp add: agentsOnRows_def)
  ultimately have "resolveAll (defaultSort ids) (h\<lparr> deadlockCount := deadlockCount h + 1 \<rparr>) \<noteq> None"
    by (rule resolveAll_total)
  then show ?thesis using False by (simp add: resolveDeadlocks_def)
qed


section \<open>Paths of one cell\<close>

lemma reconstructLoop_length:
  assumes "reconstructLoop parent n acc = Some r"
  shows "length acc \<le> length r \<and> (parent n \<noteq> None \<longrightarrow> length acc < length r)"
proof (rule reconstructLoop.raw_induct[where P = "\<lambda>parent n acc r.
         length acc \<le> length r \<and> (parent n \<noteq> None \<longrightarrow> length acc < length r)", OF _ assms])
  fix rl :: "(pos \<rightharpoonup> pos) \<Rightarrow> pos \<Rightarrow> pos list \<Rightarrow> pos list option"
    and parent current pth r
  assume ih: "\<And>parent current pth y. rl parent current pth = Some y \<Longrightarrow>
      length pth \<le> length y \<and> (parent current \<noteq> None \<longrightarrow> length pth < length y)"
    and eq: "(case parent current of None \<Rightarrow> Some pth | Some p \<Rightarrow> rl parent p (p # pth)) = Some r"
  show "length pth \<le> length r \<and> (parent current \<noteq> None \<longrightarrow> length pth < length r)"
  proof (cases "parent current")
    case None
    then show ?thesis using eq by simp
  next
    case (Some p)
    then have "rl parent p (p # pth) = Some r" using eq by simp
    then have "length (p # pth) \<le> length r" using ih by blast
    then show ?thesis by simp
  qed
qed

lemma reconstructPath_single: "reconstructPath parent n = Some [p] \<Longrightarrow> parent n = None \<and> p = n"
proof -
  assume a: "reconstructPath parent n = Some [p]"
  then have r: "reconstructLoop parent n [n] = Some [p]" by (simp add: reconstructPath_def)
  have n: "parent n = None" using reconstructLoop_length[OF r] by (cases "parent n") auto
  then have "reconstructLoop parent n [n] = Some [n]" by (subst reconstructLoop.simps) simp
  then show ?thesis using r n by simp
qed

text \<open>A*: every open cell other than the start has a parent.\<close>

definition astar_parents :: "pos \<Rightarrow> astar_state \<Rightarrow> bool" where
  "astar_parents start st =
     (case st of (openSet, closedSet, cameFrom, gScore) \<Rightarrow>
        \<forall>n \<in> fst ` set openSet. n = start \<or> cameFrom n \<noteq> None)"

lemma astar_visit_parents:
  assumes "astar_parents start st"
  shows "astar_parents start (astar_visit a end current dir st)"
proof -
  obtain openSet closedSet cameFrom gScore where st: "st = (openSet, closedSet, cameFrom, gScore)"
    by (cases st) auto
  show ?thesis
  proof (cases "astar_visit a end current dir st = st")
    case True
    then show ?thesis using assms by simp
  next
    case False
    define n where "n = (fst current + fst dir, snd current + snd dir)"
    from False obtain os gs where res: "astar_visit a end current dir st = (os, closedSet, cameFrom(n \<mapsto> current), gs)"
      and os: "fst ` set os \<subseteq> insert n (fst ` set openSet)"
      by (auto simp: astar_visit_def st n_def Let_def fst_set_update_f split: if_splits)
    have "m = start \<or> (cameFrom(n \<mapsto> current)) m \<noteq> None" if "m \<in> fst ` set os" for m
    proof (cases "m = n")
      case True
      then show ?thesis by simp
    next
      case False
      then have "m \<in> fst ` set openSet" using os that by auto
      then have "m = start \<or> cameFrom m \<noteq> None" using assms unfolding astar_parents_def st by blast
      then show ?thesis using False by simp
    qed
    then show ?thesis unfolding res astar_parents_def by blast
  qed
qed

lemma astar_fold_parents:
  "astar_parents start st \<Longrightarrow> astar_parents start (fold (astar_visit a end current) dirs st)"
  by (induction dirs arbitrary: st) (simp_all add: astar_visit_parents)

lemma astar_loop_single:
  "astar_parents start st \<Longrightarrow> astar_loop a end st = Some [p] \<Longrightarrow> Some start = end"
proof (induction a "end" st rule: astar_loop.induct)
  case (1 a "end" st)
  obtain openSet closedSet cameFrom gScore where st: "st = (openSet, closedSet, cameFrom, gScore)"
    by (cases st) auto
  show ?case
  proof (cases "sort_f openSet")
    case Nil
    then show ?thesis using 1(3) by (subst (asm) astar_loop.simps) (simp add: st)
  next
    case (Cons e rest)
    have mem: "fst e \<in> fst ` set openSet" using Cons set_sort_f[of openSet]
      by (metis imageI list.set_intros(1))
    have sub: "set rest \<subseteq> set openSet" using Cons set_sort_f[of openSet]
      by (metis set_subset_Cons)
    show ?thesis
    proof (cases "Some (fst e) = end")
      case True
      then have "reconstructPath cameFrom (fst e) = Some [p]"
        using 1(3) Cons by (subst (asm) astar_loop.simps) (simp add: st)
      then have "cameFrom (fst e) = None" using reconstructPath_single by blast
      then show ?thesis using 1(2) mem True by (auto simp: astar_parents_def st)
    next
      case False
      let ?st1 = "(rest, insert (fst e) closedSet, cameFrom, gScore)"
      have "astar_parents start ?st1" using 1(2) sub by (auto simp: astar_parents_def st)
      then have p: "astar_parents start (fold (astar_visit a end (fst e)) (as_directions a) ?st1)"
        by (rule astar_fold_parents)
      have "astar_loop a end (fold (astar_visit a end (fst e)) (as_directions a) ?st1) = Some [p]"
        using 1(3) Cons False by (subst (asm) astar_loop.simps) (simp add: st Let_def)
      then show ?thesis using 1(1)[OF st[symmetric] refl refl Cons refl False p] by simp
    qed
  qed
qed

lemma AStar_findPath_single: "AStar_findPath a start end = Some [p] \<Longrightarrow> start = end"
proof -
  assume r: "AStar_findPath a start end = Some [p]"
  let ?st = "([(start, Some (of_int (heuristic (as_topologyType a) start end)))], {},
              Map.empty, (\<lambda>_. None)(start := Some 0))"
  have "astar_loop a (Some end) ?st = Some [p]" using r by (auto simp: AStar_findPath_def split: if_splits)
  moreover have "astar_parents start ?st" by (simp add: astar_parents_def)
  ultimately show ?thesis using astar_loop_single by blast
qed

text \<open>Breadth-first search: every queued cell other than the start has a parent.\<close>

definition bfs_parents :: "pos \<Rightarrow> bfs_state \<Rightarrow> bool" where
  "bfs_parents start st =
     (case st of (queue, visited, parent) \<Rightarrow> \<forall>n \<in> set queue. n = start \<or> parent n \<noteq> None)"

lemma bfs_visit_parents:
  "bfs_parents start st \<Longrightarrow> bfs_parents start (bfs_visit g current dir st)"
  by (cases st) (auto simp: bfs_parents_def bfs_visit_def Let_def)

lemma bfs_fold_parents:
  "bfs_parents start st \<Longrightarrow> bfs_parents start (fold (bfs_visit g current) dirs st)"
  by (induction dirs arbitrary: st) (simp_all add: bfs_visit_parents)

lemma bfs_loop_single:
  "bfs_parents start st \<Longrightarrow> bfs_loop g dirs end st = Some [p] \<Longrightarrow> Some start = end"
proof (induction g dirs "end" st rule: bfs_loop.induct)
  case (1 g dirs "end" st)
  obtain queue visited parent where st: "st = (queue, visited, parent)" by (cases st) auto
  show ?case
  proof (cases queue)
    case Nil
    then show ?thesis using 1(3) by (subst (asm) bfs_loop.simps) (simp add: st)
  next
    case (Cons current rest)
    show ?thesis
    proof (cases "Some current = end")
      case True
      then have "reconstructPath parent current = Some [p]"
        using 1(3) Cons by (subst (asm) bfs_loop.simps) (simp add: st)
      then have "parent current = None" using reconstructPath_single by blast
      then show ?thesis using 1(2) Cons True by (auto simp: bfs_parents_def st)
    next
      case False
      let ?st1 = "(rest, visited, parent)"
      have "bfs_parents start ?st1" using 1(2) Cons by (auto simp: bfs_parents_def st)
      then have p: "bfs_parents start (fold (bfs_visit g current) dirs ?st1)"
        by (rule bfs_fold_parents)
      have "bfs_loop g dirs end (fold (bfs_visit g current) dirs ?st1) = Some [p]"
        using 1(3) Cons False by (subst (asm) bfs_loop.simps) (simp add: st)
      then show ?thesis using 1(1)[OF st[symmetric] refl Cons False p] by simp
    qed
  qed
qed

lemma BFS_findPath_single: "BFS_findPath b start end = Some [p] \<Longrightarrow> start = end"
proof -
  assume r: "BFS_findPath b start end = Some [p]"
  have "bfs_loop (bfs_grid b) (bfs_directions b) (Some end) ([start], {start}, Map.empty) = Some [p]"
    using r by (auto simp: BFS_findPath_def split: if_splits)
  moreover have "bfs_parents start ([start], {start}, Map.empty)" by (simp add: bfs_parents_def)
  ultimately show ?thesis using bfs_loop_single by blast
qed


text \<open>
  Minimax and Expectimax: no call of the search removes a key of \<open>cameFrom\<close>, and the
  decision loop stores the start whenever it picks a move.
\<close>

definition keeps :: "came_from \<Rightarrow> came_from \<Rightarrow> bool" where
  "keeps cf cf' = (\<forall>x. cf x \<noteq> None \<longrightarrow> cf' x \<noteq> None)"

lemma keeps_refl: "keeps cf cf"
  by (simp add: keeps_def)

lemma keeps_trans: "keeps a b \<Longrightarrow> keeps b c \<Longrightarrow> keeps a c"
  by (simp add: keeps_def)

lemma keeps_upd: "keeps cf (cf(k \<mapsto> v))"
  by (simp add: keeps_def)

lemma mm_maxLoop_keeps:
  assumes "\<And>move alpha beta vis cf. keeps cf (snd (child move alpha beta vis cf))"
  shows "keeps cf (snd (mm_maxLoop child state moves value alpha beta visited cf))"
proof (induction moves arbitrary: "value" alpha cf)
  case Nil
  then show ?case by (simp add: keeps_refl)
next
  case (Cons move moves)
  show ?case
  proof (cases "move \<in> visited")
    case True
    then show ?thesis using Cons.IH by simp
  next
    case False
    obtain v cf1 where c: "child move alpha beta (insert move visited) cf = (v, cf1)"
      by (cases "child move alpha beta (insert move visited) cf") auto
    have k1: "keeps cf cf1" using assms[of cf move alpha beta "insert move visited"] c by simp
    show ?thesis
    proof (cases "js_le beta (js_max value v)")
      case True
      then show ?thesis using False c k1 by (simp add: Let_def)
    next
      case nb: False
      let ?cf2 = "if js_less (js_max alpha (js_max value v)) (js_max value v) then cf1(state \<mapsto> move) else cf1"
      have k2: "keeps cf ?cf2" using k1 keeps_trans[OF k1 keeps_upd] by simp
      have "keeps ?cf2 (snd (mm_maxLoop child state moves (js_max value v) (js_max alpha (js_max value v)) beta visited ?cf2))"
        by (rule Cons.IH)
      moreover have "mm_maxLoop child state (move # moves) value alpha beta visited cf
          = mm_maxLoop child state moves (js_max value v) (js_max alpha (js_max value v)) beta visited ?cf2"
        using False c nb by (simp add: Let_def)
      ultimately show ?thesis using keeps_trans[OF k2] by simp
    qed
  qed
qed

lemma mm_minLoop_keeps:
  assumes "\<And>move alpha beta vis cf. keeps cf (snd (child move alpha beta vis cf))"
  shows "keeps cf (snd (mm_minLoop child state moves value alpha beta visited cf))"
proof (induction moves arbitrary: "value" beta cf)
  case Nil
  then show ?case by (simp add: keeps_refl)
next
  case (Cons move moves)
  show ?case
  proof (cases "move \<in> visited")
    case True
    then show ?thesis using Cons.IH by simp
  next
    case False
    obtain v cf1 where c: "child move alpha beta (insert move visited) cf = (v, cf1)"
      by (cases "child move alpha beta (insert move visited) cf") auto
    have k1: "keeps cf cf1" using assms[of cf move alpha beta "insert move visited"] c by simp
    show ?thesis
    proof (cases "js_le (js_min value v) alpha")
      case True
      then show ?thesis using False c k1 by (simp add: Let_def)
    next
      case nb: False
      have "keeps cf1 (snd (mm_minLoop child state moves (js_min value v) alpha (js_min beta (js_min value v)) visited cf1))"
        by (rule Cons.IH)
      moreover have "mm_minLoop child state (move # moves) value alpha beta visited cf
          = mm_minLoop child state moves (js_min value v) alpha (js_min beta (js_min value v)) visited cf1"
        using False c nb by (simp add: Let_def)
      ultimately show ?thesis using keeps_trans[OF k1] by simp
    qed
  qed
qed

lemma mm_value_keeps: "keeps cf (snd (mm_value d m goal isMax state alpha beta visited cf))"
proof (induction d arbitrary: isMax state alpha beta visited cf)
  case 0
  then show ?case by (simp add: keeps_refl)
next
  case (Suc d)
  show ?case
  proof (cases "state = goal")
    case True
    then show ?thesis by (simp add: keeps_refl)
  next
    case False
    show ?thesis
    proof (cases isMax)
      case True
      have "keeps cf (snd (mm_maxLoop (mm_value d m goal False) state
               (openNeighbors (mm_grid m) (mm_topology m) state) NegInf alpha beta visited cf))"
        by (rule mm_maxLoop_keeps) (rule Suc.IH)
      then show ?thesis using False True by simp
    next
      case f: False
      have "keeps cf (snd (mm_minLoop (mm_value d m goal True) state
               (openNeighbors (mm_grid m) (mm_topology m) state) PosInf alpha beta visited cf))"
        by (rule mm_minLoop_keeps) (rule Suc.IH)
      then show ?thesis using False f by simp
    qed
  qed
qed

lemma decisionLoop_sets:
  assumes ch: "\<And>move vis cf. keeps cf (snd (child move vis cf))"
    and pre: "bestMove \<noteq> None \<longrightarrow> cf state \<noteq> None"
  shows "fst (decisionLoop child state moves bestValue bestMove visited cf) \<noteq> None \<longrightarrow>
         snd (decisionLoop child state moves bestValue bestMove visited cf) state \<noteq> None"
  using pre
proof (induction moves arbitrary: bestValue bestMove cf)
  case Nil
  then show ?case by simp
next
  case (Cons move moves)
  show ?case
  proof (cases "move \<in> visited")
    case True
    then show ?thesis using Cons by simp
  next
    case False
    obtain v cf1 where c: "child move (insert move visited) cf = (v, cf1)"
      by (cases "child move (insert move visited) cf") auto
    have k1: "keeps cf cf1" using ch[of cf move "insert move visited"] c by simp
    show ?thesis
    proof (cases "js_less bestValue v")
      case True
      have "(Some move \<noteq> None \<longrightarrow> (cf1(state \<mapsto> move)) state \<noteq> None)" by simp
      moreover have "decisionLoop child state (move # moves) bestValue bestMove visited cf
          = decisionLoop child state moves v (Some move) visited (cf1(state \<mapsto> move))"
        using False c True by simp
      ultimately show ?thesis
        using Cons.IH[of "Some move" "cf1(state \<mapsto> move)" v] by presburger
    next
      case nl: False
      have "bestMove \<noteq> None \<longrightarrow> cf1 state \<noteq> None" using Cons.prems k1 unfolding keeps_def by blast
      moreover have "decisionLoop child state (move # moves) bestValue bestMove visited cf
          = decisionLoop child state moves bestValue bestMove visited cf1"
        using False c nl by simp
      ultimately show ?thesis
        using Cons.IH[of bestMove cf1 bestValue] by presburger
    qed
  qed
qed

lemma followMoves_length: "length pth \<le> length (followMoves cf goal current pth)"
proof (induction cf goal current pth rule: followMoves.induct)
  case (1 cf goal current pth)
  show ?case
  proof (cases "current = goal")
    case True
    then show ?thesis by (subst followMoves.simps) simp
  next
    case False
    show ?thesis
    proof (cases "cf current")
      case None
      then show ?thesis using False by (subst followMoves.simps) simp
    next
      case (Some nxt)
      show ?thesis
      proof (cases "length (pth @ [nxt]) > 1000 \<or> nxt = goal")
        case True
        then show ?thesis using False Some by (subst followMoves.simps) (auto simp: Let_def)
      next
        case f2: False
        then have "length (pth @ [nxt]) \<le> length (followMoves cf goal nxt (pth @ [nxt]))"
          using 1[OF False Some refl] by auto
        then show ?thesis using False Some f2 by (subst followMoves.simps) (auto simp: Let_def)
      qed
    qed
  qed
qed

lemma followMoves_two:
  assumes "cf start \<noteq> None" "start \<noteq> goal"
  shows "2 \<le> length (followMoves cf goal start [start])"
proof -
  obtain nxt where n: "cf start = Some nxt" using assms(1) by auto
  show ?thesis
  proof (cases "nxt = goal")
    case True
    then show ?thesis using n assms(2) by (subst followMoves.simps) (simp add: Let_def)
  next
    case False
    have "length ([start] @ [nxt]) \<le> length (followMoves cf goal nxt ([start] @ [nxt]))"
      by (rule followMoves_length)
    then show ?thesis using n assms(2) False by (subst followMoves.simps) (simp add: Let_def)
  qed
qed

lemma completeWithAStar_length:
  "completeWithAStar g topo goal pth = Some r \<Longrightarrow> length pth \<le> length r"
  by (auto simp: completeWithAStar_def split: if_splits option.splits)

lemma search_result_two:
  assumes "cf start \<noteq> None" "start \<noteq> goal"
    and "completeWithAStar g topo goal (followMoves cf goal start [start]) = Some r"
  shows "2 \<le> length r"
  using followMoves_two[of cf start goal] assms(1,2) completeWithAStar_length[OF assms(3)] by simp

lemma Minimax_findPath_single:
  assumes "Minimax_findPath m start goal = Some [p]" and "fst start \<noteq> fst goal"
  shows "p = start \<and> fst (minimaxDecision m goal start (mm_maxDepth m) {} Map.empty) = None"
proof -
  obtain bm cf where d: "minimaxDecision m goal start (mm_maxDepth m) {} Map.empty = (bm, cf)"
    by (cases "minimaxDecision m goal start (mm_maxDepth m) {} Map.empty") auto
  have sg: "start \<noteq> goal" using assms(2) by auto
  show ?thesis
  proof (cases bm)
    case None
    then show ?thesis using assms d by (auto simp: Minimax_findPath_def split: if_splits)
  next
    case (Some b)
    have "fst (minimaxDecision m goal start (mm_maxDepth m) {} Map.empty) \<noteq> None \<longrightarrow>
          snd (minimaxDecision m goal start (mm_maxDepth m) {} Map.empty) start \<noteq> None"
      unfolding minimaxDecision_def
      by (rule decisionLoop_sets) (simp_all add: mm_minValue_def mm_value_keeps)
    then have c: "cf start \<noteq> None" using d Some by simp
    have "completeWithAStar (mm_grid m) (mm_topology m) goal (followMoves cf goal start [start]) = Some [p]"
      using assms d Some by (auto simp: Minimax_findPath_def split: if_splits)
    then have "2 \<le> length [p]" using search_result_two[of cf start goal _ _ "[p]"] c sg by blast
    then show ?thesis by simp
  qed
qed

text \<open>The same for the Expectimax search.\<close>

lemma ex_maxLoop_keeps:
  assumes "\<And>move vis cf. keeps cf (snd (child move vis cf))"
  shows "keeps cf (snd (ex_maxLoop child state moves value visited cf))"
proof (induction moves arbitrary: "value" cf)
  case Nil
  then show ?case by (simp add: keeps_refl)
next
  case (Cons move moves)
  show ?case
  proof (cases "move \<in> visited")
    case True
    then show ?thesis using Cons.IH by simp
  next
    case False
    obtain v cf1 where c: "child move (insert move visited) cf = (v, cf1)"
      by (cases "child move (insert move visited) cf") auto
    have k1: "keeps cf cf1" using assms[of cf move "insert move visited"] c by simp
    let ?cf2 = "if js_less NegInf (js_max value v) then cf1(state \<mapsto> move) else cf1"
    have k2: "keeps cf ?cf2" using k1 keeps_trans[OF k1 keeps_upd] by simp
    have "keeps ?cf2 (snd (ex_maxLoop child state moves (js_max value v) visited ?cf2))"
      by (rule Cons.IH)
    moreover have "ex_maxLoop child state (move # moves) value visited cf
        = ex_maxLoop child state moves (js_max value v) visited ?cf2"
      using False c by (simp add: Let_def)
    ultimately show ?thesis using keeps_trans[OF k2] by simp
  qed
qed

lemma ex_expectLoop_keeps:
  assumes "\<And>move vis cf. keeps cf (snd (child move vis cf))"
  shows "keeps cf (snd (ex_expectLoop e goal child state moves ev vm visited cf))"
proof (induction moves arbitrary: ev vm cf)
  case Nil
  then show ?case by (simp add: keeps_refl)
next
  case (Cons move moves)
  show ?case
  proof (cases "move \<in> visited")
    case True
    then show ?thesis using Cons.IH by simp
  next
    case False
    obtain v cf1 where c: "child move (insert move visited) cf = (v, cf1)"
      by (cases "child move (insert move visited) cf") auto
    have k1: "keeps cf cf1" using assms[of cf move "insert move visited"] c by simp
    have "keeps cf1 (snd (ex_expectLoop e goal child state moves
             (js_add ev (js_scale (calculateProbability e goal move state) v)) (vm + 1) visited cf1))"
      by (rule Cons.IH)
    moreover have "ex_expectLoop e goal child state (move # moves) ev vm visited cf
        = ex_expectLoop e goal child state moves
             (js_add ev (js_scale (calculateProbability e goal move state) v)) (vm + 1) visited cf1"
      using False c by simp
    ultimately show ?thesis using keeps_trans[OF k1] by simp
  qed
qed

lemma ex_value_keeps: "keeps cf (snd (ex_value d e goal isMax state visited cf))"
proof (induction d arbitrary: isMax state visited cf)
  case 0
  then show ?case by (simp add: keeps_refl)
next
  case (Suc d)
  let ?moves = "openNeighbors (ex_grid e) (ex_topology e) state"
  show ?case
  proof (cases "state = goal \<or> length ?moves = 0")
    case True
    then show ?thesis by (auto simp: keeps_refl Let_def)
  next
    case False
    show ?thesis
    proof (cases isMax)
      case True
      have "keeps cf (snd (ex_maxLoop (ex_value d e goal False) state ?moves NegInf visited cf))"
        by (rule ex_maxLoop_keeps) (rule Suc.IH)
      then show ?thesis using False True by (simp add: Let_def)
    next
      case f: False
      have k: "keeps cf (snd (ex_expectLoop e goal (ex_value d e goal True) state ?moves (Fin 0) 0 visited cf))"
        by (rule ex_expectLoop_keeps) (rule Suc.IH)
      obtain ev vm cf1 where r: "ex_expectLoop e goal (ex_value d e goal True) state ?moves (Fin 0) 0 visited cf = ((ev, vm), cf1)"
        by (metis prod.exhaust)
      show ?thesis using False f k r by (simp add: Let_def)
    qed
  qed
qed

lemma Expectimax_findPath_single:
  assumes "Expectimax_findPath e start goal = Some [p]" and "fst start \<noteq> fst goal"
  shows "p = start \<and> fst (expectimaxDecision e goal start (ex_maxDepth e) {} Map.empty) = None"
proof -
  obtain bm cf where d: "expectimaxDecision e goal start (ex_maxDepth e) {} Map.empty = (bm, cf)"
    by (cases "expectimaxDecision e goal start (ex_maxDepth e) {} Map.empty") auto
  have sg: "start \<noteq> goal" using assms(2) by auto
  show ?thesis
  proof (cases bm)
    case None
    then show ?thesis using assms d by (auto simp: Expectimax_findPath_def split: if_splits)
  next
    case (Some b)
    have "fst (expectimaxDecision e goal start (ex_maxDepth e) {} Map.empty) \<noteq> None \<longrightarrow>
          snd (expectimaxDecision e goal start (ex_maxDepth e) {} Map.empty) start \<noteq> None"
      unfolding expectimaxDecision_def
      by (rule decisionLoop_sets) (simp_all add: expectValue_def ex_value_keeps)
    then have c: "cf start \<noteq> None" using d Some by simp
    have "completeWithAStar (ex_grid e) (ex_topology e) goal (followMoves cf goal start [start]) = Some [p]"
      using assms d Some by (auto simp: Expectimax_findPath_def split: if_splits)
    then have "2 \<le> length [p]" using search_result_two[of cf start goal _ _ "[p]"] c sg by blast
    then show ?thesis by simp
  qed
qed


section \<open>What the planning and moving functions leave alone\<close>

lemma globals_updates [simp]:
  "globals (s\<lparr> agents := ags \<rparr>) = globals s"
  "globals (s\<lparr> sim_grid := g \<rparr>) = globals s"
  "globals (s\<lparr> deadlockHandler := h \<rparr>) = globals s"
  "globals (s\<lparr> randomCalls := rc \<rparr>) = globals s"
  "globals (s\<lparr> totalMoves := n \<rparr>) = globals s"
  "globals (s\<lparr> sequentialMovesRemaining := k \<rparr>) = globals s"
  "globals (s\<lparr> lastDeadlockSignature := sg \<rparr>) = globals s"
  "globals (s\<lparr> repeatedDeadlockCount := n \<rparr>) = globals s"
  by (simp_all add: globals_def pendingRestarts_def)

lemma globals_timers_restore [simp]:
  "globals (s\<lparr> timers := timers s @ map (\<lambda>i. RestoreVisibility (f i) (g i)) xs \<rparr>) = globals s"
  "globals (s\<lparr> timers := timers s @ [RestoreVisibility k v] \<rparr>) = globals s"
  "globals (s\<lparr> timers := timers s @ [RestartSimulation] \<rparr>) = globals s"
  by (simp_all add: globals_def pendingRestarts_def filter_map comp_def)

lemma globals_upd_agent [simp]: "globals (upd_agent i f s) = globals s"
  by (simp add: upd_agent_def)

lemma globals_handlerStore [simp]: "globals (handlerStore h s) = globals s"
  by (simp add: handlerStore_def)

lemma globals_findTemporaryTarget [simp]: "globals (snd (findTemporaryTarget i s)) = globals s"
  by (simp add: findTemporaryTarget_def Let_def split: list.splits option.splits)

lemma globals_findPathIgnoringAgents [simp]: "globals (snd (findPathIgnoringAgents i s)) = globals s"
proof -
  have "globals (snd (case findTemporaryTarget i s of (None, s1) \<Rightarrow> (False, s1) | (Some x, s1) \<Rightarrow> (False, s1))) = globals s"
    using globals_findTemporaryTarget[of i s]
    by (cases "findTemporaryTarget i s") (auto split: option.splits)
  then show ?thesis
    by (simp add: findPathIgnoringAgents_def Let_def split: option.splits)
qed

lemma globals_calculatePath [simp]: "globals (calculatePath i s) = globals s"
  by (simp add: calculatePath_def Let_def split: option.splits)

lemma globals_fold:
  assumes "\<And>x s. globals (f x s) = globals s"
  shows "globals (fold f xs s) = globals s"
  by (induction xs arbitrary: s) (simp_all add: assms)

lemma globals_fold_calculatePath [simp]: "globals (fold calculatePath xs s) = globals s"
  by (rule globals_fold) simp

lemma globals_moveAgentTo [simp]: "globals (moveAgentTo i p s) = globals s"
  by (simp add: moveAgentTo_def Let_def)

lemma globals_moveAgentTemporarilyForced [simp]: "globals (snd (moveAgentTemporarilyForced i s)) = globals s"
  by (simp add: moveAgentTemporarilyForced_def Let_def split: list.splits)

lemma globals_swapAgents [simp]: "globals (swapAgents i j s) = globals s"
  by (simp add: swapAgents_def Let_def)

lemma globals_tryAgentSwapping [simp]: "globals (snd (tryAgentSwapping stuck s)) = globals s"
  by (simp add: tryAgentSwapping_def split: option.splits prod.splits)

lemma globals_tryRandomMoves [simp]: "globals (snd (tryRandomMoves e stuck s)) = globals s"
  by (induction stuck arbitrary: s) (simp_all add: Let_def split: option.splits)

lemma globals_forceFirst [simp]: "globals (snd (forceFirst cs tried s)) = globals s"
proof (induction cs arbitrary: tried s)
  case Nil then show ?case by simp
next
  case (Cons c cs)
  show ?case
    using globals_moveAgentTemporarilyForced[of c s] Cons
    by (cases "moveAgentTemporarilyForced c s") (auto split: bool.splits)
qed

lemma globals_forceBlockers [simp]: "globals (snd (forceBlockers atT blocked tried s)) = globals s"
proof (induction blocked arbitrary: tried s)
  case Nil then show ?case by simp
next
  case (Cons b blocked)
  show ?case
  proof (cases "length (path (agents s ! b)) \<le> 1")
    case True then show ?thesis using Cons by simp
  next
    case False
    let ?bl = "filter (\<lambda>t. agent_id (agents s ! t) \<notin> set tried \<and> isBlocker s (agents s ! b) (agents s ! t)) atT"
    obtain ok tr s1 where r: "forceFirst ?bl tried s = ((ok, tr), s1)" by (metis prod.exhaust)
    have g: "globals s1 = globals s" using globals_forceFirst[of ?bl tried s] r by simp
    show ?thesis using False r g Cons by (cases ok) (simp_all add: Let_def)
  qed
qed

lemma globals_forceUntried [simp]: "globals (snd (forceUntried ts tried s)) = globals s"
proof (induction ts arbitrary: tried s)
  case Nil then show ?case by simp
next
  case (Cons t ts)
  show ?case
    using globals_moveAgentTemporarilyForced[of t s] Cons
    by (cases "moveAgentTemporarilyForced t s") (auto split: bool.splits)
qed

lemma globals_tryMoveBlockingAgents [simp]: "globals (snd (tryMoveBlockingAgents s)) = globals s"
proof -
  obtain ok tr s1 where r: "forceBlockers (agentsAtTargets s) (agentsNotAtTargets s) [] s = ((ok, tr), s1)"
    by (metis prod.exhaust)
  have g1: "globals s1 = globals s"
    using globals_forceBlockers[of "agentsAtTargets s" "agentsNotAtTargets s" "[]" s] r by simp
  let ?srt = "sort_key (\<lambda>t. - int (agent_id (agents s1 ! t))) (agentsAtTargets s)"
  obtain ok2 s2 where r2: "forceUntried ?srt tr s1 = (ok2, s2)" by (metis prod.exhaust)
  have g2: "globals s2 = globals s1" using globals_forceUntried[of ?srt tr s1] r2 by simp
  show ?thesis
    using r r2 g1 g2 by (cases ok; cases ok2) (simp_all add: tryMoveBlockingAgents_def Let_def)
qed

lemma globals_tryIntermediates [simp]: "globals (snd (tryIntermediates i cs s)) = globals s"
  by (induction cs arbitrary: s) (simp_all add: Let_def split: option.splits)

lemma globals_findTwoPhase [simp]: "globals (snd (findTwoPhasePathThroughAgents i s)) = globals s"
  by (simp add: findTwoPhasePathThroughAgents_def)

lemma globals_firstSuccess:
  assumes "\<And>c s. globals (snd (f c s)) = globals s"
  shows "globals (snd (firstSuccess f cs s)) = globals s"
proof (induction cs arbitrary: s)
  case Nil then show ?case by simp
next
  case (Cons c cs)
  obtain r s1 where r: "f c s = (r, s1)" by (metis prod.exhaust)
  have g: "globals s1 = globals s" using assms[of c s] r by simp
  show ?case using r g Cons by (auto split: option.splits bool.splits)
qed

lemma globals_assignTarget [simp]: "globals (assignTarget i t p s) = globals s"
  by (simp add: assignTarget_def)

lemma globals_widenVisibility [simp]: "globals (widenVisibility notAt s) = globals s"
proof -
  let ?f = "\<lambda>a. a\<lparr> visibilityRange := map_option (\<lambda>v. v + 2) (visibilityRange a) \<rparr>"
  let ?s1 = "fold (\<lambda>i. upd_agent i ?f) notAt s"
  have g: "globals ?s1 = globals s"
    by (rule globals_fold) simp
  have t: "timers ?s1 = timers s"
  proof -
    have "timers (fold (\<lambda>i. upd_agent i ?f) xs s0) = timers s0" for xs s0
      by (induction xs arbitrary: s0) (simp_all add: upd_agent_def)
    then show ?thesis .
  qed
  have "globals (?s1\<lparr> timers := timers ?s1 @
          map (\<lambda>i. RestoreVisibility (agent_id (agents s ! i)) (visibilityRange (agents s ! i))) notAt \<rparr>)
        = globals ?s1"
    by (rule globals_timers_restore(1))
  then show ?thesis using g t by (simp add: widenVisibility_def)
qed

lemma globals_tryVisibleTarget [simp]: "globals (snd (tryVisibleTarget c s)) = globals s"
  by (simp add: tryVisibleTarget_def Let_def split: prod.splits option.splits)

lemma globals_recalcOthers [simp]: "globals (recalcOthers i s) = globals s"
  unfolding recalcOthers_def by (rule globals_fold) simp

lemma globals_tryChain [simp]: "globals (snd (tryChain blocking notAt c s)) = globals s"
  by (simp add: tryChain_def Let_def split: prod.splits option.splits bool.splits)

lemma globals_tryDirect [simp]: "globals (snd (tryDirect c s)) = globals s"
  by (simp add: tryDirect_def Let_def split: prod.splits option.splits)

lemma globals_tryOtherTarget [simp]: "globals (snd (tryOtherTarget c s)) = globals s"
  by (simp add: tryOtherTarget_def Let_def split: prod.splits option.splits)

lemma globals_trySwapTargets [simp]: "globals (snd (trySwapTargets c s)) = globals s"
  by (simp add: trySwapTargets_def Let_def split: prod.splits option.splits)

lemma globals_orElse:
  assumes "globals (snd r) = globals s" and "\<And>s1. globals (snd (f s1)) = globals s1"
  shows "globals (snd (orElse r f)) = globals s"
  using assms by (cases r) (auto simp: orElse_def split: option.splits bool.splits)

lemma globals_tryTargetReassignment [simp]: "globals (snd (tryTargetReassignment s)) = globals s"
  unfolding tryTargetReassignment_def Let_def
  by (auto intro!: globals_orElse simp: globals_firstSuccess)

lemma globals_applyAssignment [simp]: "globals (applyAssignment asg s) = globals s"
  by (simp add: applyAssignment_def Let_def)

lemma globals_assignTargets [simp]: "globals (assignTargets s) = globals s"
  by (simp add: assignTargets_def globals_fold split: option.splits)

lemma globals_draw [simp]: "globals (snd (draw e s)) = globals s"
  by (simp add: draw_def)

lemma globals_refreshPath [simp]: "globals (refreshPath e i s) = globals s"
  by (simp add: refreshPath_def draw_def split: prod.splits)

lemma globals_commitStep [simp]: "globals (commitStep e i s) = globals s"
  by (simp add: commitStep_def Let_def draw_def split: prod.splits)

lemma globals_agentTurn [simp]: "globals (snd (agentTurn e i s)) = globals s"
  by (simp add: agentTurn_def Let_def split: option.splits)

lemma globals_moveLoop [simp]: "globals (snd (moveLoop e is n s)) = globals s"
proof (induction "is" arbitrary: n s)
  case Nil then show ?case by simp
next
  case (Cons i rest)
  obtain m s1 where r: "agentTurn e i s = (m, s1)" by (metis prod.exhaust)
  have g: "globals s1 = globals s" using globals_agentTurn[of e i s] r by simp
  show ?case using r g Cons by (cases m) simp_all
qed


lemma timers_upd_agent [simp]: "timers (upd_agent i f s) = timers s"
  by (simp add: upd_agent_def)

lemma globals_widenAndPlan [simp]: "globals (widenAndPlan i s) = globals s"
proof -
  have "globals (s1\<lparr> timers := timers s1 @ [RestoreVisibility k v] \<rparr>) = globals s1" for s1 k v
    by simp
  then show ?thesis by (simp add: widenAndPlan_def Let_def del: globals_timers_restore)
qed

lemma globals_forceNear [simp]: "globals (snd (forceNear bs s)) = globals s"
proof (induction bs arbitrary: s)
  case Nil then show ?case by simp
next
  case (Cons b bs)
  show ?case
    using globals_moveAgentTemporarilyForced[of b s] Cons
    by (cases "moveAgentTemporarilyForced b s") (auto split: bool.splits)
qed

lemma globals_forceForStuck [simp]: "globals (snd (forceForStuck ks s)) = globals s"
proof (induction ks arbitrary: s)
  case Nil then show ?case by simp
next
  case (Cons k ks)
  obtain ok s1 where r: "forceNear (blockersNear s k) s = (ok, s1)" by (metis prod.exhaust)
  have g: "globals s1 = globals s" using globals_forceNear[of "blockersNear s k" s] r by simp
  show ?case using r g Cons by (cases ok) simp_all
qed

lemma globals_clearedPaths [simp]: "globals (snd (clearedPaths ks ok s)) = globals s"
proof (induction ks arbitrary: ok s)
  case Nil then show ?case by simp
next
  case (Cons k ks)
  obtain r s1 where r: "findTwoPhasePathThroughAgents k s = (r, s1)" by (metis prod.exhaust)
  have g: "globals s1 = globals s" using globals_findTwoPhase[of k s] r by simp
  obtain r2 s2 where r2: "findPathIgnoringAgents k s1 = (r2, s2)" by (metis prod.exhaust)
  have g2: "globals s2 = globals s1" using globals_findPathIgnoringAgents[of k s1] r2 by simp
  show ?case using r g r2 g2 Cons by (auto split: option.splits bool.splits)
qed

lemma globals_afterCleared:
  "globals (snd r) = globals s \<Longrightarrow> globals (snd (afterCleared e stuck r)) = globals s"
proof -
  assume a: "globals (snd r) = globals s"
  obtain b s3 where r: "r = (b, s3)" by (metis prod.exhaust)
  obtain b4 s4 where r4: "tryRandomMoves e stuck s3 = (b4, s4)" by (metis prod.exhaust)
  have g4: "globals s4 = globals s3" using globals_tryRandomMoves[of e stuck s3] r4 by simp
  obtain b5 s5 where r5: "tryTargetReassignment s4 = (b5, s5)" by (metis prod.exhaust)
  have g5: "globals s5 = globals s4" using globals_tryTargetReassignment[of s4] r5 by simp
  show ?thesis using a r r4 g4 r5 g5
    by (auto simp: afterCleared_def split: option.splits bool.splits)
qed

lemma globals_intervention [simp]: "globals (snd (intervention e s)) = globals s"
  unfolding intervention_def Let_def
  by (rule globals_afterCleared) simp

lemma globals_escalate [simp]: "globals (snd (escalate e n s)) = globals s"
proof -
  obtain b1 s1 where r1: "tryTargetReassignment s = (b1, s1)" by (metis prod.exhaust)
  have g1: "globals s1 = globals s" using globals_tryTargetReassignment[of s] r1 by simp
  obtain b2 s2 where r2: "tryMoveBlockingAgents s1 = (b2, s2)" by (metis prod.exhaust)
  have g2: "globals s2 = globals s1" using globals_tryMoveBlockingAgents[of s1] r2 by simp
  obtain b3 s3 where r3: "tryTargetReassignment s2 = (b3, s3)" by (metis prod.exhaust)
  have g3: "globals s3 = globals s2" using globals_tryTargetReassignment[of s2] r3 by simp
  have g4: "globals (snd (intervention e s2)) = globals s2" by simp
  show ?thesis
  proof (cases b1)
    case None then show ?thesis using r1 g1 by (simp add: escalate_def)
  next
    case (Some t1)
    show ?thesis
    proof (cases t1)
      case True then show ?thesis using Some r1 g1 by (simp add: escalate_def)
    next
      case f1: False
      show ?thesis
      proof (cases b2)
        case True then show ?thesis using Some f1 r1 g1 r2 g2 by (simp add: escalate_def)
      next
        case f2: False
        show ?thesis
        proof (cases "n > 0")
          case True then show ?thesis using Some f1 f2 r1 g1 r2 g2 g4 by (simp add: escalate_def)
        next
          case n0: False
          show ?thesis
            using Some f1 f2 n0 r1 g1 r2 g2 r3 g3
            by (cases b3) (simp_all add: escalate_def split: bool.splits)
        qed
      qed
    qed
  qed
qed

section \<open>The counter of failed resolutions\<close>

lemma globals_pause_cong:
  "globals a = globals b \<Longrightarrow> globals (pauseSimulation a) = globals (pauseSimulation b)"
  by (simp add: globals_def pauseSimulation_def pendingRestarts_def)

text \<open>The deadlock phase: it pauses exactly when it ends the tick, and changes nothing else.\<close>

lemma globals_resolve [simp]: "globals (snd (resolve ids s)) = globals s"
  by (simp add: resolve_def split: option.splits)

lemma fst_resolve [simp]: "fst (resolve ids s) \<noteq> Finished"
  by (simp add: resolve_def split: option.splits)

lemma globals_noteDeadlock:
  "globals (snd (noteDeadlock ids s)) =
     (if fst (noteDeadlock ids s) = Finished then globals (pauseSimulation s) else globals s)"
  and fst_noteDeadlock: "fst (noteDeadlock ids s) \<noteq> Thrown"
  by (simp_all add: noteDeadlock_def Let_def globals_def pauseSimulation_def pendingRestarts_def)

lemma globals_deadlockPhase:
  "globals (snd (deadlockPhase s)) =
     (if fst (deadlockPhase s) = Finished then globals (pauseSimulation s) else globals s)"
proof -
  let ?s1 = "handlerStore (updatePositionTracking (handlerView s)) s"
  have g1: "globals ?s1 = globals s" by simp
  have p1: "globals (pauseSimulation ?s1) = globals (pauseSimulation s)"
    using g1 by (rule globals_pause_cong)
  show ?thesis
  proof (cases "agentsNotAtTargets ?s1 = []")
    case True
    then show ?thesis using p1 by (simp add: deadlockPhase_def Let_def)
  next
    case False
    show ?thesis
    proof (cases "detected ?s1")
      case None
      then show ?thesis using False g1 by (simp add: deadlockPhase_def Let_def)
    next
      case (Some ids)
      show ?thesis
      proof (cases "ids = []")
        case True
        then show ?thesis using False Some g1 by (simp add: deadlockPhase_def Let_def)
      next
        case ne: False
        obtain r s2 where n: "noteDeadlock ids ?s1 = (r, s2)" by (metis prod.exhaust)
        have d: "deadlockPhase s = (case r of Proceed \<Rightarrow> resolve ids s2 | _ \<Rightarrow> (r, s2))"
          using False Some ne n by (simp add: deadlockPhase_def Let_def split: outcome.splits)
        have gn: "globals s2 = (if r = Finished then globals (pauseSimulation ?s1) else globals ?s1)"
          using globals_noteDeadlock[of ids ?s1] n by simp
        have rn: "r \<noteq> Thrown" using fst_noteDeadlock[of ids ?s1] n by simp
        show ?thesis
        proof (cases r)
          case Proceed
          then show ?thesis using d gn g1 by simp
        next
          case Finished
          then show ?thesis using d gn p1 by simp
        next
          case Thrown
          then show ?thesis using rn by simp
        qed
      qed
    qed
  qed
qed

lemma globals_deadlockPhase_Proceed:
  "deadlockPhase s = (Proceed, s1) \<Longrightarrow> globals s1 = globals s"
  using globals_deadlockPhase[of s] by simp

text \<open>The steps after the moves.\<close>

lemma failed_of_globals:
  "globals a = globals b \<Longrightarrow> failedDeadlockResolutionAttempts a = failedDeadlockResolutionAttempts b"
  and modes_of_globals:
  "globals a = globals b \<Longrightarrow> currentDecisionMode a = currentDecisionMode b \<and>
      sequentialMovementMode a = sequentialMovementMode b"
  and restarts_of_globals:
  "globals a = globals b \<Longrightarrow> pendingRestarts a = pendingRestarts b"
  and running_of_globals:
  "globals a = globals b \<Longrightarrow> isSimulationRunning a = isSimulationRunning b \<and>
      simulationInterval a = simulationInterval b"
  by (simp_all add: globals_def)

lemma failed_pause [simp]:
  "failedDeadlockResolutionAttempts (pauseSimulation s) = failedDeadlockResolutionAttempts s"
  "pendingRestarts (pauseSimulation s) = pendingRestarts s"
  "currentDecisionMode (pauseSimulation s) = currentDecisionMode s"
  "sequentialMovementMode (pauseSimulation s) = sequentialMovementMode s"
  "\<not> isSimulationRunning (pauseSimulation s)"
  "\<not> simulationInterval (pauseSimulation s)"
  by (simp_all add: pauseSimulation_def pendingRestarts_def)

lemma globals_giveUp:
  "globals (snd (giveUp r)) = globals (snd r) \<or> globals (snd (giveUp r)) = globals (pauseSimulation (snd r))"
  by (cases r) (simp add: giveUp_def split: outcome.splits)

lemma failed_giveUp [simp]:
  "failedDeadlockResolutionAttempts (snd (giveUp r)) = failedDeadlockResolutionAttempts (snd r)"
  "pendingRestarts (snd (giveUp r)) = pendingRestarts (snd r)"
  by (cases r; simp add: giveUp_def split: outcome.splits)+







lemma startSimulation_runs:
  assumes "\<not> isSimulationRunning s" "agents s \<noteq> []" "targetPositions s \<noteq> []"
  shows "isSimulationRunning (startSimulation s)" "simulationInterval (startSimulation s)"
    "failedDeadlockResolutionAttempts (startSimulation s) = 0"
    "sequentialMovementMode (startSimulation s) = sequentialMovementMode s"
    "pendingRestarts (startSimulation s) = pendingRestarts s"
proof -
  define s3 where "s3 = (if sequentialMovementMode s
       then s\<lparr> failedDeadlockResolutionAttempts := 0, lastDeadlockSignature := [], repeatedDeadlockCount := 0,
               sequentialMovesRemaining := int (length (agents s)), isSimulationRunning := True \<rparr>
       else s\<lparr> failedDeadlockResolutionAttempts := 0, lastDeadlockSignature := [], repeatedDeadlockCount := 0,
               isSimulationRunning := True \<rparr>)"
  have st: "startSimulation s = (assignTargets s3)\<lparr> simulationInterval := True \<rparr>"
    using assms by (simp add: startSimulation_def Let_def s3_def)
  have g: "globals (assignTargets s3) = globals s3" by simp
  have s3f: "isSimulationRunning s3" "failedDeadlockResolutionAttempts s3 = 0"
    "sequentialMovementMode s3 = sequentialMovementMode s" "pendingRestarts s3 = pendingRestarts s"
    by (simp_all add: s3_def pendingRestarts_def)
  have a: "isSimulationRunning (assignTargets s3)" "failedDeadlockResolutionAttempts (assignTargets s3) = 0"
    "sequentialMovementMode (assignTargets s3) = sequentialMovementMode s"
    "pendingRestarts (assignTargets s3) = pendingRestarts s"
    using running_of_globals[OF g] failed_of_globals[OF g] modes_of_globals[OF g] restarts_of_globals[OF g] s3f
    by simp_all
  show "isSimulationRunning (startSimulation s)" "simulationInterval (startSimulation s)"
    "failedDeadlockResolutionAttempts (startSimulation s) = 0"
    "sequentialMovementMode (startSimulation s) = sequentialMovementMode s"
    "pendingRestarts (startSimulation s) = pendingRestarts s"
    using a by (simp_all add: st pendingRestarts_def)
qed

section \<open>The targets after the start\<close>

lemma goals_upd_agent:
  "(\<And>a. agent_goal (f a) = agent_goal a) \<Longrightarrow> goals (upd_agent i f s) = goals s"
proof -
  assume f: "\<And>a. agent_goal (f a) = agent_goal a"
  show ?thesis
  proof (cases "i < length (agents s)")
    case True
    then have "(map agent_goal (agents s))[i := agent_goal (agents s ! i)] = map agent_goal (agents s)"
      by (metis list_update_id nth_map)
    then show ?thesis by (simp add: goals_def upd_agent_def map_update f)
  next
    case False
    then have "(agents s)[i := f (agents s ! i)] = agents s"
      by (metis list_update_beyond not_less)
    then show ?thesis by (simp add: goals_def upd_agent_def)
  qed
qed

lemma goals_upd_path [simp]:
  "goals (upd_agent i (\<lambda>a. a\<lparr> path := p a \<rparr>) s) = goals s"
  "goals (upd_agent i (\<lambda>a. a\<lparr> path := p a, isRetreating := r a \<rparr>) s) = goals s"
  by (rule goals_upd_agent; simp add: agent_goal_def)+

lemma goals_findTemporaryTarget [simp]: "goals (snd (findTemporaryTarget i s)) = goals s"
  by (simp add: findTemporaryTarget_def Let_def split: list.splits option.splits)

lemma goals_findPathIgnoringAgents [simp]: "goals (snd (findPathIgnoringAgents i s)) = goals s"
proof -
  have "goals (snd (case findTemporaryTarget i s of (None, s1) \<Rightarrow> (False, s1) | (Some x, s1) \<Rightarrow> (False, s1))) = goals s"
    using goals_findTemporaryTarget[of i s]
    by (cases "findTemporaryTarget i s") (auto split: option.splits)
  then show ?thesis
    by (simp add: findPathIgnoringAgents_def Let_def split: option.splits)
qed

lemma goals_calculatePath [simp]: "goals (calculatePath i s) = goals s"
  by (simp add: calculatePath_def Let_def split: option.splits)

lemma goals_applyAssignment:
  assumes "agent asg < length (agents s)"
  shows "goals (applyAssignment asg s) = (goals s)[agent asg := Some (targetPositions s ! target asg)]"
proof -
  have "goals (upd_agent (agent asg) (\<lambda>a. a\<lparr> targetX := Some (fst t), targetY := Some (snd t) \<rparr>) s)
        = (goals s)[agent asg := Some t]" for t
    using assms by (simp add: goals_def upd_agent_def map_update agent_goal_def)
  then show ?thesis by (simp add: applyAssignment_def Let_def)
qed

lemma targetPositions_applyAssignment [simp]:
  "targetPositions (applyAssignment asg s) = targetPositions s"
proof -
  have "globals (applyAssignment asg s) = globals s" by simp
  then show ?thesis by (simp add: globals_def)
qed

lemma length_goals [simp]: "length (goals s) = length (agents s)"
  by (simp add: goals_def)

lemma goals_fold_applyAssignment:
  assumes "distinct (map agent asgs)" and "\<forall>a \<in> set asgs. agent a < length (agents s)"
  shows "length (goals (fold applyAssignment asgs s)) = length (goals s) \<and>
         targetPositions (fold applyAssignment asgs s) = targetPositions s \<and>
         (\<forall>a \<in> set asgs. goals (fold applyAssignment asgs s) ! agent a = Some (targetPositions s ! target a)) \<and>
         (\<forall>j. j \<notin> agent ` set asgs \<longrightarrow> goals (fold applyAssignment asgs s) ! j = goals s ! j)"
  using assms
proof (induction asgs arbitrary: s)
  case Nil
  then show ?case by simp
next
  case (Cons a asgs)
  let ?s1 = "applyAssignment a s"
  have a: "agent a < length (agents s)" using Cons.prems by simp
  have g1: "goals ?s1 = (goals s)[agent a := Some (targetPositions s ! target a)]"
    using goals_applyAssignment[OF a] .
  have l1: "length (agents ?s1) = length (agents s)"
    using arg_cong[OF g1, of length] by simp
  have d: "distinct (map agent asgs)" and na: "agent a \<notin> agent ` set asgs"
    using Cons.prems(1) by auto
  have b: "\<forall>x \<in> set asgs. agent x < length (agents ?s1)" using Cons.prems(2) l1 by simp
  note ih = Cons.IH[OF d b]
  have t1: "targetPositions ?s1 = targetPositions s" by simp
  have fold: "fold applyAssignment (a # asgs) s = fold applyAssignment asgs ?s1" by simp
  show ?case
    unfolding fold
  proof (intro conjI ballI allI impI)
    show "length (goals (fold applyAssignment asgs ?s1)) = length (goals s)"
      using ih l1 by simp
    show "targetPositions (fold applyAssignment asgs ?s1) = targetPositions s"
      using ih t1 by simp
  next
    fix x assume x: "x \<in> set (a # asgs)"
    show "goals (fold applyAssignment asgs ?s1) ! agent x = Some (targetPositions s ! target x)"
    proof (cases "x \<in> set asgs")
      case True
      then show ?thesis using ih t1 by simp
    next
      case False
      then have xa: "x = a" using x by simp
      have "goals (fold applyAssignment asgs ?s1) ! agent a = goals ?s1 ! agent a"
        using ih na by blast
      then show ?thesis using xa g1 a by simp
    qed
  next
    fix j assume j: "j \<notin> agent ` set (a # asgs)"
    then have "j \<notin> agent ` set asgs" "j \<noteq> agent a" by auto
    then have "goals (fold applyAssignment asgs ?s1) ! j = goals ?s1 ! j" using ih by blast
    then show "goals (fold applyAssignment asgs ?s1) ! j = goals s ! j"
      using g1 \<open>j \<noteq> agent a\<close> by simp
  qed
qed

lemma agents_of_goals_frame:
  "agents (s\<lparr> failedDeadlockResolutionAttempts := a, lastDeadlockSignature := b, repeatedDeadlockCount := c \<rparr>) = agents s"
  by simp

section \<open>Theorems\<close>

text \<open>
  C10. The breadth-first strategy does not depend on the topology: the pathfinder built
  with the Moore argument returns the same path as the one built with the Von Neumann
  argument, for every grid, start and goal, since the constructor keeps the four
  orthogonal directions and drops the topology argument.
\<close>

theorem bfs_topology_independent:
  "findPath (createPathfinder AlgBFS Moore g) start goal
     = findPath (createPathfinder AlgBFS VonNeumann g) start goal"
  by (simp add: createPathfinder_def BFS_new_def)

text \<open>
  C8. For agent positions and at least as many target positions (on a grid with at least
  one row), \<open>findOptimalAssignment\<close> returns an assignment, and it is one-to-one: the
  agent indices of the returned pairs are exactly \<open>0, 1, ..., n - 1\<close>, each once and in
  this order, and no target index occurs twice; every target index is in range.
\<close>

theorem assignment_one_to_one:
  assumes "length agentPositions \<le> length targets" and "g \<noteq> []"
  shows "\<exists>asg. findOptimalAssignment agentPositions targets g = Some asg \<and>
           map agent asg = [0..<length agentPositions] \<and> distinct (map target asg) \<and>
           (\<forall>a \<in> set asg. target a < length targets)"
  using assms by (rule findOptimalAssignment_one_to_one)

theorem assignment_one_to_one_witness:
  "length [(0, 0), (1, 0) :: pos] \<le> length [(2, 2), (1, 2), (0, 1) :: pos] \<and>
   [[0, 0, 0], [0, 0, 0], [0, 0, 0 :: int]] \<noteq> [] \<and>
   (\<exists>asg. findOptimalAssignment [(0, 0), (1, 0)] [(2, 2), (1, 2), (0, 1)]
            [[0, 0, 0], [0, 0, 0], [0, 0, 0]] = Some asg \<and>
          map agent asg = [0..<length [(0, 0), (1, 0) :: pos]] \<and> distinct (map target asg) \<and>
          (\<forall>a \<in> set asg. target a < length [(2, 2), (1, 2), (0, 1) :: pos]))"
proof -
  have h1: "length [(0, 0), (1, 0) :: pos] \<le> length [(2, 2), (1, 2), (0, 1) :: pos]" by simp
  have h2: "[[0, 0, 0], [0, 0, 0], [0, 0, 0 :: int]] \<noteq> []" by simp
  show ?thesis using h1 h2 assignment_one_to_one[OF h1 h2] by blast
qed


text \<open>
  C9. The cumulative deadlock counter never decreases over any sequence of operations
  on the handler: after the sequence it is the old value plus the number of
  \<open>resolveDeadlocks\<close> calls that received a non-empty list. A single \<open>resolveDeadlocks\<close>
  call, on a grid with at least one row and with every agent of the handler on a row
  of the grid, returns and adds exactly one for a non-empty list, whatever the number
  of agents resolved, and nothing for the empty list. (With an agent on no row of the
  grid the call throws in \<open>createModifiedGrid\<close>, after the counter has been stepped.)
\<close>

theorem deadlock_count_monotone:
  "(dh_run ops h = Some h' \<longrightarrow>
      deadlockCount h \<le> deadlockCount h' \<and> deadlockCount h' = deadlockCount h + resolve_calls ops) \<and>
   (dh_grid h \<noteq> [] \<and> agentsOnRows h \<longrightarrow>
      (\<exists>h1. resolveDeadlocks h ids = Some h1 \<and>
            deadlockCount h1 = deadlockCount h + (if ids = [] then 0 else 1)))"
proof (intro conjI impI)
  assume "dh_run ops h = Some h'"
  then show "deadlockCount h' = deadlockCount h + resolve_calls ops" by (rule dh_run_count)
  then show "deadlockCount h \<le> deadlockCount h'" by simp
next
  assume "dh_grid h \<noteq> [] \<and> agentsOnRows h"
  then obtain h1 where r: "resolveDeadlocks h ids = Some h1"
    using resolveDeadlocks_total[of h ids] by auto
  then show "\<exists>h1. resolveDeadlocks h ids = Some h1 \<and>
            deadlockCount h1 = deadlockCount h + (if ids = [] then 0 else 1)"
    using resolveDeadlocks_count by blast
qed

theorem deadlock_count_monotone_witness:
  "\<exists>h'. dh_run [OpUpdatePositionTracking, OpResolveDeadlocks [0, 1], OpResolveDeadlocks [], OpGetDeadlockCount]
           (DeadlockHandler_new [[2, 2, 0]]
              [with_target (new_agent 0 0 0 None) (2, 0), with_target (new_agent 1 1 0 None) (0, 0)]) = Some h' \<and>
         deadlockCount h' = 1 \<and>
         (dh_grid (DeadlockHandler_new [[2, 2, 0]]
              [with_target (new_agent 0 0 0 None) (2, 0), with_target (new_agent 1 1 0 None) (0, 0)]) \<noteq> [] \<and>
          agentsOnRows (DeadlockHandler_new [[2, 2, 0]]
              [with_target (new_agent 0 0 0 None) (2, 0), with_target (new_agent 1 1 0 None) (0, 0)])) \<and>
         (\<exists>h1. resolveDeadlocks (DeadlockHandler_new [[2, 2, 0]]
              [with_target (new_agent 0 0 0 None) (2, 0), with_target (new_agent 1 1 0 None) (0, 0)]) [0, 1] = Some h1 \<and>
               deadlockCount h1 = 1)"
proof -
  let ?h = "DeadlockHandler_new [[2, 2, 0]]
              [with_target (new_agent 0 0 0 None) (2, 0), with_target (new_agent 1 1 0 None) (0, 0)]"
  let ?ops = "[OpUpdatePositionTracking, OpResolveDeadlocks [0, 1], OpResolveDeadlocks [], OpGetDeadlockCount]"
  have g: "dh_grid ?h \<noteq> [] \<and> agentsOnRows ?h"
    by (simp add: DeadlockHandler_new_def agentsOnRows_def with_target_def new_agent_def rows_def)
  have "dh_run ?ops ?h \<noteq> None" by code_simp
  then obtain h' where r: "dh_run ?ops ?h = Some h'" by auto
  have c: "deadlockCount ?h = 0" by (simp add: DeadlockHandler_new_def)
  show ?thesis
    using deadlock_count_monotone[of ?ops ?h h' "[0, 1]"] r g c by auto
qed

text \<open>
  C5. The first tactic for a deadlocked agent, \<open>findAlternativePath\<close>, plans on the grid of
  \<open>createModifiedGrid\<close>. In a corridor of three cells with agent 0 on the left (target
  on the right) and agent 1 in the middle, not on its target, the modified grid holds
  the wall value in the cell of agent 1 (and in the cell of agent 0), the A* search
  through it finds nothing and the tactic fails; on the grid with the walls only the
  same search passes through that cell.
\<close>

theorem modified_grid_marks_agents_as_walls:
  "createModifiedGrid (DeadlockHandler_new [[2, 2, 0]]
           [with_target (new_agent 0 0 0 None) (2, 0), with_target (new_agent 1 1 0 None) (0, 0)])
     = Some [[CELL_WALL, CELL_WALL, 0]] \<and>
   findAlternativePath (DeadlockHandler_new [[2, 2, 0]]
           [with_target (new_agent 0 0 0 None) (2, 0), with_target (new_agent 1 1 0 None) (0, 0)]) 0
     = Some (False, DeadlockHandler_new [[2, 2, 0]]
           [with_target (new_agent 0 0 0 None) (2, 0), with_target (new_agent 1 1 0 None) (0, 0)]) \<and>
   AStar_findPath (AStar_new_default (wallsOnly [[2, 2, 0]])) (0, 0) (2, 0)
     = Some [(0, 0), (1, 0), (2, 0)]"
  by code_simp


text \<open>
  C4, as amended. For the A* and BFS strategies, every grid, start and goal: a result of
  exactly one cell means that start and goal are the same cell. For Minimax and
  Expectimax with start and goal in different columns, a result of exactly one cell is
  the start cell alone and the decision search has found no move: this is the
  "no path found" result of these two strategies, and there it does not mean that
  start and goal are equal.
\<close>

theorem one_element_path:
  assumes "findPath (createPathfinder alg topo g) start goal = Some [p]"
  shows "(alg = AlgAStar \<or> alg = AlgBFS \<longrightarrow> start = goal) \<and>
         (alg = AlgMinimax \<and> fst start \<noteq> fst goal \<longrightarrow>
            p = start \<and>
            fst (minimaxDecision (Minimax_new g topo) goal start
                   (mm_maxDepth (Minimax_new g topo)) {} Map.empty) = None) \<and>
         (alg = AlgExpectimax \<and> fst start \<noteq> fst goal \<longrightarrow>
            p = start \<and>
            fst (expectimaxDecision (Expectimax_new g topo) goal start
                   (ex_maxDepth (Expectimax_new g topo)) {} Map.empty) = None)"
proof (cases alg)
  case AlgAStar
  then show ?thesis using assms AStar_findPath_single by (simp add: createPathfinder_def)
next
  case AlgBFS
  then show ?thesis using assms BFS_findPath_single by (simp add: createPathfinder_def)
next
  case AlgMinimax
  then show ?thesis using assms Minimax_findPath_single by (simp add: createPathfinder_def)
next
  case AlgExpectimax
  then show ?thesis using assms Expectimax_findPath_single by (simp add: createPathfinder_def)
qed

theorem one_element_path_witness:
  "findPath (createPathfinder AlgAStar Moore [[0, 0, 0], [0, 0, 0], [0, 0, 0]]) (1, 1) (1, 1) = Some [(1, 1)] \<and>
   (1, 1) = ((1, 1) :: pos) \<and>
   findPath (createPathfinder AlgExpectimax Moore [[0, 1, 0], [1, 1, 0], [0, 0, 0]]) (0, 0) (2, 2) = Some [(0, 0)] \<and>
   fst ((0, 0) :: pos) \<noteq> fst ((2, 2) :: pos) \<and>
   fst (expectimaxDecision (Expectimax_new [[0, 1, 0], [1, 1, 0], [0, 0, 0]] Moore) (2, 2) (0, 0)
          (ex_maxDepth (Expectimax_new [[0, 1, 0], [1, 1, 0], [0, 0, 0]] Moore)) {} Map.empty) = None"
proof -
  have a: "findPath (createPathfinder AlgAStar Moore [[0, 0, 0], [0, 0, 0], [0, 0, 0]]) (1, 1) (1, 1) = Some [(1, 1)]"
    by code_simp
  have e: "findPath (createPathfinder AlgExpectimax Moore [[0, 1, 0], [1, 1, 0], [0, 0, 0]]) (0, 0) (2, 2) = Some [(0, 0)]"
    by code_simp
  show ?thesis using a e one_element_path[OF a] one_element_path[OF e] by simp
qed

text \<open>
  The claim as stated fails for Minimax: on a 3 x 3 grid whose start cell (0, 0) has
  walls on all its neighbours, the search towards (2, 2) returns the start cell alone.
\<close>

theorem one_element_path_counterexample:
  "findPath (createPathfinder AlgMinimax VonNeumann [[0, 1, 0], [1, 1, 0], [0, 0, 0]]) (0, 0) (2, 2)
     = Some [(0, 0)] \<and> ((0, 0) :: pos) \<noteq> (2, 2)"
  by code_simp

text \<open>
  C2, as amended. \<open>startSimulation\<close> does nothing when the simulation is running
  already, or there is no agent, or there is no target. In every other case it sets
  the running flag and arms the tick timer, whatever the two counts are: with fewer
  targets than agents the agents are left exactly as they are, each with the target
  it had before or with none (\<open>assignTargets\<close> returns at once), and with at least as
  many targets as agents (on a grid with a row) every agent gets the target of its
  pair of the one-to-one assignment.
\<close>

theorem start_simulation:
  "(isSimulationRunning s \<or> agents s = [] \<or> targetPositions s = [] \<longrightarrow> startSimulation s = s) \<and>
   (\<not> isSimulationRunning s \<and> agents s \<noteq> [] \<and> targetPositions s \<noteq> [] \<longrightarrow>
      isSimulationRunning (startSimulation s) \<and> simulationInterval (startSimulation s) \<and>
      (length (targetPositions s) < length (agents s) \<longrightarrow> agents (startSimulation s) = agents s) \<and>
      (length (agents s) \<le> length (targetPositions s) \<and> sim_grid s \<noteq> [] \<longrightarrow>
         (\<exists>asg. findOptimalAssignment (map agent_pos (agents s)) (targetPositions s) (sim_grid s) = Some asg \<and>
                map agent asg = [0..<length (agents s)] \<and> distinct (map target asg) \<and>
                length (agents (startSimulation s)) = length (agents s) \<and>
                (\<forall>i < length (agents s).
                   agent_goal (agents (startSimulation s) ! i) = Some (targetPositions s ! target (asg ! i))))))"
proof (intro conjI impI)
  assume "isSimulationRunning s \<or> agents s = [] \<or> targetPositions s = []"
  then show "startSimulation s = s" by (auto simp: startSimulation_def)
next
  assume a: "\<not> isSimulationRunning s \<and> agents s \<noteq> [] \<and> targetPositions s \<noteq> []"
  then show "isSimulationRunning (startSimulation s)" "simulationInterval (startSimulation s)"
    using startSimulation_runs[of s] by simp_all
next
  assume a: "\<not> isSimulationRunning s \<and> agents s \<noteq> [] \<and> targetPositions s \<noteq> []"
    and b: "length (targetPositions s) < length (agents s)"
  then show "agents (startSimulation s) = agents s"
    by (simp add: startSimulation_def Let_def assignTargets_def)
next
  assume a: "\<not> isSimulationRunning s \<and> agents s \<noteq> [] \<and> targetPositions s \<noteq> []"
    and b: "length (agents s) \<le> length (targetPositions s) \<and> sim_grid s \<noteq> []"
  define s3 where "s3 = (if sequentialMovementMode s
       then s\<lparr> failedDeadlockResolutionAttempts := 0, lastDeadlockSignature := [], repeatedDeadlockCount := 0,
               sequentialMovesRemaining := int (length (agents s)), isSimulationRunning := True \<rparr>
       else s\<lparr> failedDeadlockResolutionAttempts := 0, lastDeadlockSignature := [], repeatedDeadlockCount := 0,
               isSimulationRunning := True \<rparr>)"
  have st: "startSimulation s = (assignTargets s3)\<lparr> simulationInterval := True \<rparr>"
    using a by (simp add: startSimulation_def Let_def s3_def)
  have s3: "agents s3 = agents s" "targetPositions s3 = targetPositions s" "sim_grid s3 = sim_grid s"
    by (simp_all add: s3_def)
  have le: "length (map agent_pos (agents s)) \<le> length (targetPositions s)" using b by simp
  obtain asg where asg: "findOptimalAssignment (map agent_pos (agents s)) (targetPositions s) (sim_grid s) = Some asg"
    and ag: "map agent asg = [0..<length (map agent_pos (agents s))]" and dt: "distinct (map target asg)"
    using findOptimalAssignment_one_to_one[OF le, of "sim_grid s"] b by auto
  have at: "assignTargets s3 = fold applyAssignment asg s3"
    using b asg by (simp add: assignTargets_def s3)
  have d: "distinct (map agent asg)" using ag by simp
  have r: "\<forall>x \<in> set asg. agent x < length (agents s3)"
  proof
    fix x assume "x \<in> set asg"
    then have "agent x \<in> set (map agent asg)" by simp
    then show "agent x < length (agents s3)" using ag s3 by simp
  qed
  note f = goals_fold_applyAssignment[OF d r]
  have la: "length asg = length (agents s)" using arg_cong[OF ag, of length] by simp
  have gi: "agent_goal (agents (startSimulation s) ! i) = Some (targetPositions s ! target (asg ! i))"
    if i: "i < length (agents s)" for i
  proof -
    have m: "asg ! i \<in> set asg" using i la by simp
    have ai: "agent (asg ! i) = i"
      using arg_cong[OF ag, of "\<lambda>xs. xs ! i"] i la by simp
    have "goals (fold applyAssignment asg s3) ! i = Some (targetPositions s3 ! target (asg ! i))"
      using f m ai by metis
    moreover have "i < length (agents (fold applyAssignment asg s3))"
      using f i s3 by simp
    ultimately show ?thesis using s3 by (simp add: st at goals_def)
  qed
  have ll: "length (agents (startSimulation s)) = length (agents s)"
    using f s3 by (simp add: st at)
  show "\<exists>asg. findOptimalAssignment (map agent_pos (agents s)) (targetPositions s) (sim_grid s) = Some asg \<and>
                map agent asg = [0..<length (agents s)] \<and> distinct (map target asg) \<and>
                length (agents (startSimulation s)) = length (agents s) \<and>
                (\<forall>i < length (agents s).
                   agent_goal (agents (startSimulation s) ! i) = Some (targetPositions s ! target (asg ! i)))"
    using asg ag dt ll gi by auto
qed

theorem start_simulation_witness:
  "(isSimulationRunning (initialState 5) \<or> agents (initialState 5) = [] \<or> targetPositions (initialState 5) = []) \<and>
   startSimulation (initialState 5) = initialState 5 \<and>
   (\<not> isSimulationRunning (toggleTarget 0 4 (addAgent 1 0 (addAgent 0 0 (initialState 5)))) \<and>
    agents (toggleTarget 0 4 (addAgent 1 0 (addAgent 0 0 (initialState 5)))) \<noteq> [] \<and>
    targetPositions (toggleTarget 0 4 (addAgent 1 0 (addAgent 0 0 (initialState 5)))) \<noteq> []) \<and>
   length (targetPositions (toggleTarget 0 4 (addAgent 1 0 (addAgent 0 0 (initialState 5)))))
     < length (agents (toggleTarget 0 4 (addAgent 1 0 (addAgent 0 0 (initialState 5))))) \<and>
   simulationInterval (startSimulation (toggleTarget 0 4 (addAgent 1 0 (addAgent 0 0 (initialState 5))))) \<and>
   agents (startSimulation (toggleTarget 0 4 (addAgent 1 0 (addAgent 0 0 (initialState 5)))))
     = agents (toggleTarget 0 4 (addAgent 1 0 (addAgent 0 0 (initialState 5)))) \<and>
   (\<not> isSimulationRunning (toggleTarget 0 1 (addAgent 0 0 (initialState 5))) \<and>
    agents (toggleTarget 0 1 (addAgent 0 0 (initialState 5))) \<noteq> [] \<and>
    targetPositions (toggleTarget 0 1 (addAgent 0 0 (initialState 5))) \<noteq> []) \<and>
   (length (agents (toggleTarget 0 1 (addAgent 0 0 (initialState 5))))
      \<le> length (targetPositions (toggleTarget 0 1 (addAgent 0 0 (initialState 5)))) \<and>
    sim_grid (toggleTarget 0 1 (addAgent 0 0 (initialState 5))) \<noteq> []) \<and>
   simulationInterval (startSimulation (toggleTarget 0 1 (addAgent 0 0 (initialState 5)))) \<and>
   length (agents (startSimulation (toggleTarget 0 1 (addAgent 0 0 (initialState 5)))))
     = length (agents (toggleTarget 0 1 (addAgent 0 0 (initialState 5))))"
proof -
  let ?A = "initialState 5"
  let ?B = "toggleTarget 0 4 (addAgent 1 0 (addAgent 0 0 (initialState 5)))"
  let ?C = "toggleTarget 0 1 (addAgent 0 0 (initialState 5))"
  have a: "isSimulationRunning ?A \<or> agents ?A = [] \<or> targetPositions ?A = []" by code_simp
  have b: "\<not> isSimulationRunning ?B \<and> agents ?B \<noteq> [] \<and> targetPositions ?B \<noteq> []" by code_simp
  have b2: "length (targetPositions ?B) < length (agents ?B)" by code_simp
  have c: "\<not> isSimulationRunning ?C \<and> agents ?C \<noteq> [] \<and> targetPositions ?C \<noteq> []" by code_simp
  have c2: "length (agents ?C) \<le> length (targetPositions ?C) \<and> sim_grid ?C \<noteq> []" by code_simp
  show ?thesis
    using a b b2 c c2 start_simulation[of ?A] start_simulation[of ?B] start_simulation[of ?C]
    by blast
qed

text \<open>
  The claim as stated fails: with five cells of a 5 x 5 grid set up as three agents and
  two targets, \<open>startSimulation\<close> sets the running flag and arms the tick timer, and the
  first tick runs (it counts one failed resolution).
\<close>

theorem start_with_fewer_goals_counterexample:
  "length (targetPositions
      (toggleTarget 1 4 (toggleTarget 0 4 (addAgent 2 0 (addAgent 1 0 (addAgent 0 0 (initialState 5)))))))
     < length (agents
      (toggleTarget 1 4 (toggleTarget 0 4 (addAgent 2 0 (addAgent 1 0 (addAgent 0 0 (initialState 5))))))) \<and>
   isSimulationRunning (startSimulation
      (toggleTarget 1 4 (toggleTarget 0 4 (addAgent 2 0 (addAgent 1 0 (addAgent 0 0 (initialState 5))))))) \<and>
   simulationInterval (startSimulation
      (toggleTarget 1 4 (toggleTarget 0 4 (addAgent 2 0 (addAgent 1 0 (addAgent 0 0 (initialState 5))))))) \<and>
   failedDeadlockResolutionAttempts (simulationStep steadyRandom (startSimulation
      (toggleTarget 1 4 (toggleTarget 0 4 (addAgent 2 0 (addAgent 1 0 (addAgent 0 0 (initialState 5)))))))) = 1"
  by code_simp







end
